theory Spec2Isabelle
  imports Complex_Main "HOL-Library.Word" "HOL-Library.Code_Target_Numeral"
begin

section \<open>Basic types (util/typedefs.hpp)\<close>

text \<open>
  Node and edge ids are 32-bit unsigned values in the source; they are only used as
  array indices and compared, so they are natural numbers here.  Edge weights are
  C++ \<open>int\<close>; sums of weights are modelled without wrap-around (signed overflow is
  undefined in the source).
\<close>

type_synonym NodeID = nat
type_synonym EdgeID = nat
type_synonym EdgeWeight = int

definition INVALID_EDGE_WEIGHT :: EdgeWeight where
  "INVALID_EDGE_WEIGHT = 2147483647"

definition SPECIAL_EDGEID :: EdgeID where
  "SPECIAL_EDGEID = 4294967295"

definition SPECIAL_NODEID :: NodeID where
  "SPECIAL_NODEID = 4294967295"

section \<open>The query graph behind the data facade\<close>

text \<open>
  \<open>SharedDataFacade\<close> forwards \<open>GetTarget\<close>, \<open>GetEdgeData\<close>, \<open>BeginEdges\<close>,
  \<open>EndEdges\<close>, \<open>GetAdjacentEdgeRange\<close> and \<open>FindEdge\<close> to its
  \<open>util::StaticGraph\<close>, whose header is not part of the sources at hand.
\<close>

text \<open>
  The fields of an edge that the routing code reads: \<open>data.distance\<close>,
  \<open>data.forward\<close>, \<open>data.backward\<close> (and the shortcut flag and id of section 3).
  The field \<open>distance\<close> is called \<open>edge_distance\<close> and \<open>id\<close> is called
  \<open>edge_id\<close>: the plain names are taken by the route step and by HOL.
\<close>

record EdgeData =
  edge_distance :: EdgeWeight
  forward :: bool
  backward :: bool
  shortcut :: bool
  edge_id :: nat

record EdgeArrayEntry =
  target :: NodeID
  data :: EdgeData

record StaticGraph =
  node_array :: "EdgeID list"
  edge_array :: "EdgeArrayEntry list"

text \<open>
  Modelled from the spec: \<open>StaticGraph\<close> (util/static\_graph.hpp) is missing.  Section 3:
  storage is an adjacency array, a node array indexed by node id gives the offset into a
  contiguous edge array, and the edges of node \<open>n\<close> occupy \<open>[offset(n), offset(n+1))\<close>.
  The node array carries one sentinel entry (the unit test \<open>array_test\<close> compares
  \<open>EndEdges(idx)\<close> with \<open>nodes[idx + 1].first_edge\<close>).
\<close>

definition GetNumberOfNodes :: "StaticGraph \<Rightarrow> nat" where
  "GetNumberOfNodes g = length (node_array g) - 1"

definition GetNumberOfEdges :: "StaticGraph \<Rightarrow> nat" where
  "GetNumberOfEdges g = length (edge_array g)"

definition BeginEdges :: "StaticGraph \<Rightarrow> NodeID \<Rightarrow> EdgeID" where
  "BeginEdges g n = node_array g ! n"

definition EndEdges :: "StaticGraph \<Rightarrow> NodeID \<Rightarrow> EdgeID" where
  "EndEdges g n = node_array g ! (n + 1)"

definition GetTarget :: "StaticGraph \<Rightarrow> EdgeID \<Rightarrow> NodeID" where
  "GetTarget g e = target (edge_array g ! e)"

definition GetEdgeData :: "StaticGraph \<Rightarrow> EdgeID \<Rightarrow> EdgeData" where
  "GetEdgeData g e = data (edge_array g ! e)"

definition GetAdjacentEdgeRange :: "StaticGraph \<Rightarrow> NodeID \<Rightarrow> EdgeID list" where
  "GetAdjacentEdgeRange g n = [BeginEdges g n ..< EndEdges g n]"

text \<open>
  A valid facade (section 3, invariants): node ids are dense, the offsets are
  non-decreasing and end at the size of the edge array, every target is a node, and the
  number of edges stays below the sentinel edge id.
\<close>

definition valid_graph :: "StaticGraph \<Rightarrow> bool" where
  "valid_graph g \<longleftrightarrow>
     node_array g \<noteq> [] \<and> sorted (node_array g) \<and>
     last (node_array g) = length (edge_array g) \<and>
     list_all (\<lambda>e. target e < GetNumberOfNodes g) (edge_array g) \<and>
     length (edge_array g) < SPECIAL_EDGEID"

text \<open>
  Modelled from the spec: \<open>StaticGraph::FindEdge\<close> is missing.  Section 3 and 8.1:
  \<open>FindEdge(u,v)\<close> is found by a linear scan of \<open>u\<close>'s edge range and returns the
  sentinel when the scan finds nothing.  The first match is returned (the unit test
  \<open>find_test\<close> expects the edge with data 2 of the two parallel edges 3 -> 0).
\<close>

fun find_in_range :: "StaticGraph \<Rightarrow> NodeID \<Rightarrow> EdgeID list \<Rightarrow> EdgeID" where
  "find_in_range g to [] = SPECIAL_EDGEID"
| "find_in_range g to (i # is) =
     (if to = target (edge_array g ! i) then i else find_in_range g to is)"

definition FindEdge :: "StaticGraph \<Rightarrow> NodeID \<Rightarrow> NodeID \<Rightarrow> EdgeID" where
  "FindEdge g from to = find_in_range g to [BeginEdges g from ..< EndEdges g from]"

section \<open>The query heap\<close>

text \<open>
  Modelled from the spec: the heap class (util/binary\_heap.hpp) is missing.  Section 4.3:
  an addressable min-heap over node ids with decrease-key and a per-node payload (the
  parent), with operations Insert, WasInserted, GetKey, DecreaseKey, GetData, DeleteMin,
  Empty and Clear; negative keys are allowed.  The backing store is one table indexed by
  node id for the inserted status, key and payload, and a queue of the nodes not yet
  removed.  A removed node stays inserted and keeps its key.  Among several nodes of
  minimal key \<open>DeleteMin\<close> takes the one inserted first; the spec leaves the order
  open, and no theorem below depends on it.
\<close>

record HeapNode =
  weight :: EdgeWeight
  parent :: NodeID

record QueryHeap =
  inserted_nodes :: "NodeID \<Rightarrow> HeapNode option"
  heap :: "NodeID list"

definition Clear :: "QueryHeap \<Rightarrow> QueryHeap" where
  "Clear h = \<lparr>inserted_nodes = (\<lambda>_. None), heap = []\<rparr>"

definition Empty :: "QueryHeap \<Rightarrow> bool" where
  "Empty h \<longleftrightarrow> heap h = []"

definition WasInserted :: "QueryHeap \<Rightarrow> NodeID \<Rightarrow> bool" where
  "WasInserted h n \<longleftrightarrow> inserted_nodes h n \<noteq> None"

definition GetKey :: "QueryHeap \<Rightarrow> NodeID \<Rightarrow> EdgeWeight" where
  "GetKey h n = (case inserted_nodes h n of Some d \<Rightarrow> weight d | None \<Rightarrow> 0)"

definition Insert :: "NodeID \<Rightarrow> EdgeWeight \<Rightarrow> NodeID \<Rightarrow> QueryHeap \<Rightarrow> QueryHeap" where
  "Insert n w p h =
     \<lparr>inserted_nodes = (inserted_nodes h)(n \<mapsto> \<lparr>weight = w, parent = p\<rparr>),
      heap = heap h @ [n]\<rparr>"

definition DecreaseKey :: "NodeID \<Rightarrow> EdgeWeight \<Rightarrow> QueryHeap \<Rightarrow> QueryHeap" where
  "DecreaseKey n w h =
     (case inserted_nodes h n of
        None \<Rightarrow> h
      | Some d \<Rightarrow> h\<lparr>inserted_nodes := (inserted_nodes h)(n \<mapsto> d\<lparr>weight := w\<rparr>)\<rparr>)"

definition SetParent :: "NodeID \<Rightarrow> NodeID \<Rightarrow> QueryHeap \<Rightarrow> QueryHeap" where
  "SetParent n p h =
     (case inserted_nodes h n of
        None \<Rightarrow> h
      | Some d \<Rightarrow> h\<lparr>inserted_nodes := (inserted_nodes h)(n \<mapsto> d\<lparr>parent := p\<rparr>)\<rparr>)"

fun min_node :: "QueryHeap \<Rightarrow> NodeID \<Rightarrow> NodeID list \<Rightarrow> NodeID" where
  "min_node h best [] = best"
| "min_node h best (n # ns) =
     min_node h (if GetKey h n < GetKey h best then n else best) ns"

definition MinNode :: "QueryHeap \<Rightarrow> NodeID" where
  "MinNode h = (case heap h of [] \<Rightarrow> SPECIAL_NODEID | n # ns \<Rightarrow> min_node h n ns)"

definition DeleteMin :: "QueryHeap \<Rightarrow> NodeID \<times> QueryHeap" where
  "DeleteMin h = (MinNode h, h\<lparr>heap := remove1 (MinNode h) (heap h)\<rparr>)"

section \<open>Phantom nodes (engine/phantom\_node.hpp)\<close>

record SegmentID =
  node_id :: NodeID
  enabled :: bool

record Coordinate =
  lon :: int
  lat :: int

record PhantomNode =
  forward_segment_id :: SegmentID
  reverse_segment_id :: SegmentID
  phantom_name_id :: nat
  forward_weight :: int
  reverse_weight :: int
  forward_offset :: int
  reverse_offset :: int
  forward_packed_geometry_id :: nat
  reverse_packed_geometry_id :: nat
  component_id :: nat
  component_is_tiny :: bool
  location :: Coordinate
  input_location :: Coordinate
  fwd_segment_position :: nat
  forward_travel_mode :: nat
  backward_travel_mode :: nat

definition GetForwardWeightPlusOffset :: "PhantomNode \<Rightarrow> int" where
  "GetForwardWeightPlusOffset p = forward_offset p + forward_weight p"

definition GetReverseWeightPlusOffset :: "PhantomNode \<Rightarrow> int" where
  "GetReverseWeightPlusOffset p = reverse_offset p + reverse_weight p"

section \<open>Many-to-many routing (engine/routing\_algorithms/many\_to\_many.hpp)\<close>

record NodeBucket =
  target_id :: nat
  bucket_distance :: EdgeWeight

type_synonym SearchSpaceWithBuckets = "NodeID \<Rightarrow> NodeBucket list option"

text \<open>
  Modelled from the spec: \<open>BasicRoutingInterface::GetLoopWeight\<close>
  (routing\_base.hpp) is missing.  Section 4.5: the loop weight of a node is the minimum
  over its self-loops that retain the direction, and \<open>INVALID_EDGE_WEIGHT\<close> when the
  node has none.
\<close>

definition GetLoopWeight :: "StaticGraph \<Rightarrow> NodeID \<Rightarrow> EdgeWeight" where
  "GetLoopWeight facade node =
     fold (\<lambda>edge loop_weight.
             if forward (GetEdgeData facade edge) \<and> GetTarget facade edge = node
             then min loop_weight (edge_distance (GetEdgeData facade edge))
             else loop_weight)
          (GetAdjacentEdgeRange facade node) INVALID_EDGE_WEIGHT"

text \<open>One iteration of the loop body of \<open>RelaxOutgoingEdges\<close>.\<close>

definition relax_edge ::
  "bool \<Rightarrow> StaticGraph \<Rightarrow> NodeID \<Rightarrow> EdgeWeight \<Rightarrow> EdgeID \<Rightarrow> QueryHeap \<Rightarrow> QueryHeap" where
  "relax_edge forward_direction facade node node_distance edge query_heap =
     (let data = GetEdgeData facade edge;
          direction_flag = (if forward_direction then forward data else backward data)
      in if direction_flag then
           (let to = GetTarget facade edge;
                edge_weight = edge_distance data;
                to_distance = node_distance + edge_weight
            in if \<not> WasInserted query_heap to then Insert to to_distance node query_heap
               else if to_distance < GetKey query_heap to
               then DecreaseKey to to_distance (SetParent to node query_heap)
               else query_heap)
         else query_heap)"

definition RelaxOutgoingEdges ::
  "bool \<Rightarrow> StaticGraph \<Rightarrow> NodeID \<Rightarrow> EdgeWeight \<Rightarrow> QueryHeap \<Rightarrow> QueryHeap" where
  "RelaxOutgoingEdges forward_direction facade node node_distance query_heap =
     fold (relax_edge forward_direction facade node node_distance)
          (GetAdjacentEdgeRange facade node) query_heap"

text \<open>The loop of \<open>StallAtNode\<close> returns true at the first edge that stalls.\<close>

definition stalls_at_edge ::
  "bool \<Rightarrow> StaticGraph \<Rightarrow> EdgeWeight \<Rightarrow> QueryHeap \<Rightarrow> EdgeID \<Rightarrow> bool" where
  "stalls_at_edge forward_direction facade node_distance query_heap edge =
     (let data = GetEdgeData facade edge;
          reverse_flag = (if \<not> forward_direction then forward data else backward data)
      in reverse_flag \<and>
         (let to = GetTarget facade edge;
              edge_weight = edge_distance data
          in WasInserted query_heap to \<and> GetKey query_heap to + edge_weight < node_distance))"

definition StallAtNode ::
  "bool \<Rightarrow> StaticGraph \<Rightarrow> NodeID \<Rightarrow> EdgeWeight \<Rightarrow> QueryHeap \<Rightarrow> bool" where
  "StallAtNode forward_direction facade node node_distance query_heap =
     list_ex (stalls_at_edge forward_direction facade node_distance query_heap)
             (GetAdjacentEdgeRange facade node)"

text \<open>
  The body of the loop over the bucket list in \<open>ForwardRoutingStep\<close>.  The index
  \<open>row_idx * number_of_targets + column_idx\<close> is inside the table whenever the bucket
  was written by a backward sweep of the same call (lemma \<open>many_to_many\<close> below); the
  source does not check it.
\<close>

definition forward_bucket ::
  "StaticGraph \<Rightarrow> nat \<Rightarrow> nat \<Rightarrow> NodeID \<Rightarrow> EdgeWeight \<Rightarrow> NodeBucket \<Rightarrow>
   EdgeWeight list \<Rightarrow> EdgeWeight list" where
  "forward_bucket facade row_idx number_of_targets node source_distance current_bucket
       result_table =
     (let column_idx = target_id current_bucket;
          target_distance = bucket_distance current_bucket;
          idx = row_idx * number_of_targets + column_idx;
          current_distance = result_table ! idx;
          new_distance = source_distance + target_distance
      in if new_distance < 0 then
           (let loop_weight = GetLoopWeight facade node;
                new_distance_with_loop = new_distance + loop_weight
            in if loop_weight \<noteq> INVALID_EDGE_WEIGHT \<and> new_distance_with_loop \<ge> 0
               then result_table[idx := min current_distance new_distance_with_loop]
               else result_table)
         else if new_distance < current_distance
         then result_table[idx := new_distance]
         else result_table)"

definition ForwardRoutingStep ::
  "StaticGraph \<Rightarrow> nat \<Rightarrow> nat \<Rightarrow> SearchSpaceWithBuckets \<Rightarrow>
   QueryHeap \<times> EdgeWeight list \<Rightarrow> QueryHeap \<times> EdgeWeight list" where
  "ForwardRoutingStep facade row_idx number_of_targets search_space_with_buckets st =
     (let (node, query_heap) = DeleteMin (fst st);
          source_distance = GetKey query_heap node;
          result_table =
            (case search_space_with_buckets node of
               None \<Rightarrow> snd st
             | Some bucket_list \<Rightarrow>
                 fold (forward_bucket facade row_idx number_of_targets node source_distance)
                      bucket_list (snd st))
      in if StallAtNode True facade node source_distance query_heap
         then (query_heap, result_table)
         else (RelaxOutgoingEdges True facade node source_distance query_heap, result_table))"

definition BackwardRoutingStep ::
  "StaticGraph \<Rightarrow> nat \<Rightarrow> QueryHeap \<times> SearchSpaceWithBuckets \<Rightarrow>
   QueryHeap \<times> SearchSpaceWithBuckets" where
  "BackwardRoutingStep facade column_idx st =
     (let (node, query_heap) = DeleteMin (fst st);
          target_distance = GetKey query_heap node;
          search_space_with_buckets =
            (snd st)(node \<mapsto>
               (case snd st node of None \<Rightarrow> [] | Some bucket_list \<Rightarrow> bucket_list) @
               [\<lparr>target_id = column_idx, bucket_distance = target_distance\<rparr>])
      in if StallAtNode False facade node target_distance query_heap
         then (query_heap, search_space_with_buckets)
         else (RelaxOutgoingEdges False facade node target_distance query_heap,
               search_space_with_buckets))"

text \<open>
  The two \<open>while (!query_heap.Empty())\<close> loops.  A loop that does not end has the
  value \<open>None\<close>.
\<close>

partial_function (option) explore_backward ::
  "StaticGraph \<Rightarrow> nat \<Rightarrow> QueryHeap \<times> SearchSpaceWithBuckets \<Rightarrow>
   (QueryHeap \<times> SearchSpaceWithBuckets) option" where
  "explore_backward facade column_idx st =
     (if Empty (fst st) then Some st
      else explore_backward facade column_idx (BackwardRoutingStep facade column_idx st))"

partial_function (option) explore_forward ::
  "StaticGraph \<Rightarrow> nat \<Rightarrow> nat \<Rightarrow> SearchSpaceWithBuckets \<Rightarrow>
   QueryHeap \<times> EdgeWeight list \<Rightarrow> (QueryHeap \<times> EdgeWeight list) option" where
  "explore_forward facade row_idx number_of_targets buckets st =
     (if Empty (fst st) then Some st
      else explore_forward facade row_idx number_of_targets buckets
             (ForwardRoutingStep facade row_idx number_of_targets buckets st))"

declare explore_backward.simps [code]
declare explore_forward.simps [code]

text \<open>The seeds of a backward and of a forward sweep.\<close>

definition seed_target :: "PhantomNode \<Rightarrow> QueryHeap \<Rightarrow> QueryHeap" where
  "seed_target phantom_node query_heap =
     (let h0 = Clear query_heap;
          h1 = (if enabled (forward_segment_id phantom_node)
                then Insert (node_id (forward_segment_id phantom_node))
                       (GetForwardWeightPlusOffset phantom_node)
                       (node_id (forward_segment_id phantom_node)) h0
                else h0)
      in if enabled (reverse_segment_id phantom_node)
         then Insert (node_id (reverse_segment_id phantom_node))
                (GetReverseWeightPlusOffset phantom_node)
                (node_id (reverse_segment_id phantom_node)) h1
         else h1)"

definition seed_source :: "PhantomNode \<Rightarrow> QueryHeap \<Rightarrow> QueryHeap" where
  "seed_source phantom_node query_heap =
     (let h0 = Clear query_heap;
          h1 = (if enabled (forward_segment_id phantom_node)
                then Insert (node_id (forward_segment_id phantom_node))
                       (- GetForwardWeightPlusOffset phantom_node)
                       (node_id (forward_segment_id phantom_node)) h0
                else h0)
      in if enabled (reverse_segment_id phantom_node)
         then Insert (node_id (reverse_segment_id phantom_node))
                (- GetReverseWeightPlusOffset phantom_node)
                (node_id (reverse_segment_id phantom_node)) h1
         else h1)"

text \<open>
  The lambdas \<open>search_target_phantom\<close> and \<open>search_source_phantom\<close>: the state is
  the running column (row) index, the shared heap and the bucket map (result table).
\<close>

definition search_target_phantom ::
  "StaticGraph \<Rightarrow> PhantomNode \<Rightarrow> nat \<times> QueryHeap \<times> SearchSpaceWithBuckets \<Rightarrow>
   (nat \<times> QueryHeap \<times> SearchSpaceWithBuckets) option" where
  "search_target_phantom facade phantom_node st =
     (case st of (column_idx, query_heap, buckets) \<Rightarrow>
        (case explore_backward facade column_idx (seed_target phantom_node query_heap, buckets) of
           None \<Rightarrow> None
         | Some (query_heap', buckets') \<Rightarrow> Some (column_idx + 1, query_heap', buckets')))"

definition search_source_phantom ::
  "StaticGraph \<Rightarrow> nat \<Rightarrow> SearchSpaceWithBuckets \<Rightarrow> PhantomNode \<Rightarrow>
   nat \<times> QueryHeap \<times> EdgeWeight list \<Rightarrow> (nat \<times> QueryHeap \<times> EdgeWeight list) option" where
  "search_source_phantom facade number_of_targets buckets phantom_node st =
     (case st of (row_idx, query_heap, result_table) \<Rightarrow>
        (case explore_forward facade row_idx number_of_targets buckets
                (seed_source phantom_node query_heap, result_table) of
           None \<Rightarrow> None
         | Some (query_heap', result_table') \<Rightarrow> Some (row_idx + 1, query_heap', result_table')))"

fun for_each :: "('a \<Rightarrow> 's \<Rightarrow> 's option) \<Rightarrow> 'a list \<Rightarrow> 's \<Rightarrow> 's option" where
  "for_each f [] s = Some s"
| "for_each f (x # xs) s = (case f x s of None \<Rightarrow> None | Some s' \<Rightarrow> for_each f xs s')"

text \<open>
  \<open>ManyToManyRouting::operator()\<close>.  The heap is the thread-local
  \<open>forward_heap_1\<close>, whatever earlier queries left in it.  An index into
  \<open>phantom_nodes\<close> is read unchecked, as in the source.
\<close>

definition number_of_sources :: "PhantomNode list \<Rightarrow> nat list \<Rightarrow> nat" where
  "number_of_sources phantom_nodes source_indices =
     (if source_indices = [] then length phantom_nodes else length source_indices)"

definition number_of_targets :: "PhantomNode list \<Rightarrow> nat list \<Rightarrow> nat" where
  "number_of_targets phantom_nodes target_indices =
     (if target_indices = [] then length phantom_nodes else length target_indices)"

definition selected :: "PhantomNode list \<Rightarrow> nat list \<Rightarrow> PhantomNode list" where
  "selected phantom_nodes indices =
     (if indices = [] then phantom_nodes else map (\<lambda>index. phantom_nodes ! index) indices)"

definition backward_phase ::
  "StaticGraph \<Rightarrow> QueryHeap \<Rightarrow> PhantomNode list \<Rightarrow> nat list \<Rightarrow>
   (nat \<times> QueryHeap \<times> SearchSpaceWithBuckets) option" where
  "backward_phase facade query_heap phantom_nodes target_indices =
     for_each (search_target_phantom facade) (selected phantom_nodes target_indices)
       (0, query_heap, \<lambda>_. None)"

definition many_to_many ::
  "StaticGraph \<Rightarrow> QueryHeap \<Rightarrow> PhantomNode list \<Rightarrow> nat list \<Rightarrow> nat list \<Rightarrow>
   EdgeWeight list option" where
  "many_to_many facade query_heap phantom_nodes source_indices target_indices =
     (let number_of_entries =
            number_of_sources phantom_nodes source_indices *
            number_of_targets phantom_nodes target_indices;
          result_table = replicate number_of_entries INVALID_EDGE_WEIGHT
      in case backward_phase facade query_heap phantom_nodes target_indices of
           None \<Rightarrow> None
         | Some (column_idx, query_heap', search_space_with_buckets) \<Rightarrow>
             (case for_each
                     (search_source_phantom facade
                        (number_of_targets phantom_nodes target_indices)
                        search_space_with_buckets)
                     (selected phantom_nodes source_indices)
                     (0, query_heap', result_table) of
                None \<Rightarrow> None
              | Some (row_idx, query_heap'', result_table') \<Rightarrow> Some result_table'))"

subsection \<open>Invariants of the sweeps\<close>

definition heap_inv :: "nat \<Rightarrow> QueryHeap \<Rightarrow> bool" where
  "heap_inv N h \<longleftrightarrow> (\<forall>x\<in>set (heap h). x < N \<and> WasInserted h x)"

definition unseen :: "nat \<Rightarrow> QueryHeap \<Rightarrow> nat" where
  "unseen N h = card {n. n < N \<and> \<not> WasInserted h n}"

definition heap_measure :: "nat \<Rightarrow> QueryHeap \<Rightarrow> nat" where
  "heap_measure N h = 2 * unseen N h + length (heap h)"

definition buckets_below :: "nat \<Rightarrow> SearchSpaceWithBuckets \<Rightarrow> bool" where
  "buckets_below c B \<longleftrightarrow> (\<forall>n bl. B n = Some bl \<longrightarrow> (\<forall>b\<in>set bl. target_id b < c))"

text \<open>The result of a forward sweep: what it changed in the table, and its search space.\<close>

definition sweep_post ::
  "nat \<Rightarrow> nat \<Rightarrow> SearchSpaceWithBuckets \<Rightarrow> QueryHeap \<times> EdgeWeight list \<Rightarrow>
   QueryHeap \<times> EdgeWeight list \<Rightarrow> bool" where
  "sweep_post r M B st res \<longleftrightarrow>
     length (snd res) = length (snd st) \<and>
     (\<forall>x. WasInserted (fst st) x \<longrightarrow> WasInserted (fst res) x) \<and>
     (\<forall>i. snd res ! i \<noteq> snd st ! i \<longrightarrow>
        (\<exists>n bl b. WasInserted (fst res) n \<and> B n = Some bl \<and> b \<in> set bl \<and>
                  i = r * M + target_id b))"

definition valid_phantom :: "StaticGraph \<Rightarrow> PhantomNode \<Rightarrow> bool" where
  "valid_phantom g p \<longleftrightarrow>
     (enabled (forward_segment_id p) \<longrightarrow> node_id (forward_segment_id p) < GetNumberOfNodes g) \<and>
     (enabled (reverse_segment_id p) \<longrightarrow> node_id (reverse_segment_id p) < GetNumberOfNodes g)"

definition reached ::
  "StaticGraph \<Rightarrow> SearchSpaceWithBuckets \<Rightarrow> PhantomNode \<Rightarrow> nat \<Rightarrow> bool" where
  "reached g B p c \<longleftrightarrow>
     (\<exists>res n bl b.
        explore_forward g 0 0 B (seed_source p \<lparr>inserted_nodes = (\<lambda>_. None), heap = []\<rparr>, []) = Some res \<and>
        WasInserted (fst res) n \<and> B n = Some bl \<and> b \<in> set bl \<and> target_id b = c)"

subsection \<open>Paths of the contracted-upward view\<close>

text \<open>
  The edge set of a sweep: the edges stored at a node whose flag of the sweep's
  direction is set (\<open>forward\<close> for a forward sweep, \<open>backward\<close> for a backward one).
  \<open>upward_path fd g seeds n w\<close> says that a path of weight \<open>w\<close> leads from a seed,
  counted with its seed key, to \<open>n\<close> along such edges.  The shortest-path weight of a
  node is the least such \<open>w\<close>.
\<close>

definition direction_flag :: "bool \<Rightarrow> EdgeData \<Rightarrow> bool" where
  "direction_flag forward_direction d = (if forward_direction then forward d else backward d)"

inductive upward_path ::
  "bool \<Rightarrow> StaticGraph \<Rightarrow> (NodeID \<times> EdgeWeight) set \<Rightarrow> NodeID \<Rightarrow> EdgeWeight \<Rightarrow> bool"
  for forward_direction :: bool and g :: StaticGraph and seeds :: "(NodeID \<times> EdgeWeight) set"
where
  seed: "(n, w) \<in> seeds \<Longrightarrow> upward_path forward_direction g seeds n w"
| edge: "upward_path forward_direction g seeds n w \<Longrightarrow>
         e \<in> set (GetAdjacentEdgeRange g n) \<Longrightarrow>
         direction_flag forward_direction (GetEdgeData g e) \<Longrightarrow>
         upward_path forward_direction g seeds (GetTarget g e)
           (w + edge_distance (GetEdgeData g e))"

text \<open>The seeds of a backward sweep from a target and of a forward sweep from a source.\<close>

definition target_seeds :: "PhantomNode \<Rightarrow> (NodeID \<times> EdgeWeight) set" where
  "target_seeds p =
     (if enabled (forward_segment_id p)
      then {(node_id (forward_segment_id p), GetForwardWeightPlusOffset p)} else {}) \<union>
     (if enabled (reverse_segment_id p)
      then {(node_id (reverse_segment_id p), GetReverseWeightPlusOffset p)} else {})"

definition source_seeds :: "PhantomNode \<Rightarrow> (NodeID \<times> EdgeWeight) set" where
  "source_seeds p =
     (if enabled (forward_segment_id p)
      then {(node_id (forward_segment_id p), - GetForwardWeightPlusOffset p)} else {}) \<union>
     (if enabled (reverse_segment_id p)
      then {(node_id (reverse_segment_id p), - GetReverseWeightPlusOffset p)} else {})"

text \<open>Invariants of a sweep: queued nodes are inserted, and every key is a path weight.\<close>

definition queue_inserted :: "QueryHeap \<Rightarrow> bool" where
  "queue_inserted h \<longleftrightarrow> (\<forall>x\<in>set (heap h). WasInserted h x)"

definition keys_are_paths ::
  "bool \<Rightarrow> StaticGraph \<Rightarrow> (NodeID \<times> EdgeWeight) set \<Rightarrow> QueryHeap \<Rightarrow> bool" where
  "keys_are_paths fd g seeds h \<longleftrightarrow>
     queue_inserted h \<and>
     (\<forall>n. WasInserted h n \<longrightarrow> upward_path fd g seeds n (GetKey h n))"

text \<open>The heap after one step of a sweep in direction \<open>fd\<close>.\<close>

definition search_step :: "bool \<Rightarrow> StaticGraph \<Rightarrow> QueryHeap \<Rightarrow> QueryHeap" where
  "search_step fd g h =
     (if StallAtNode fd g (fst (DeleteMin h))
           (GetKey (snd (DeleteMin h)) (fst (DeleteMin h))) (snd (DeleteMin h))
      then snd (DeleteMin h)
      else RelaxOutgoingEdges fd g (fst (DeleteMin h))
             (GetKey (snd (DeleteMin h)) (fst (DeleteMin h))) (snd (DeleteMin h)))"

definition new_buckets_are_paths ::
  "StaticGraph \<Rightarrow> (NodeID \<times> EdgeWeight) set \<Rightarrow> nat \<Rightarrow> SearchSpaceWithBuckets \<Rightarrow>
   SearchSpaceWithBuckets \<Rightarrow> bool" where
  "new_buckets_are_paths g seeds c B0 B \<longleftrightarrow>
     (\<forall>n. \<exists>new. (case B n of None \<Rightarrow> [] | Some bl \<Rightarrow> bl) =
                  (case B0 n of None \<Rightarrow> [] | Some bl \<Rightarrow> bl) @ new \<and>
                (\<forall>b\<in>set new. target_id b = c \<and>
                    upward_path False g seeds n (bucket_distance b)))"

section \<open>Route steps (engine/guidance/route\_step.hpp)\<close>

text \<open>
  The turn types in the order of the table \<open>turn_type_names\<close> of json\_factory.cpp
  (the declaring header, turn\_instruction.hpp, is missing); the types from \<open>NoTurn\<close> on
  are the ones that table calls invalid.  The direction modifiers are the eight of
  section 9 of the spec.
\<close>

datatype TurnType =
    Invalid | NewName | Continue | Turn | Merge | OnRamp | OffRamp | Fork | EndOfRoad
  | Notification | EnterRoundabout | EnterAndExitRoundabout | EnterRotary
  | EnterAndExitRotary | EnterRoundaboutIntersection | EnterAndExitRoundaboutIntersection
  | UseLane | NoTurn | Suppressed | EnterRoundaboutAtExit | ExitRoundabout
  | EnterRotaryAtExit | ExitRotary | EnterRoundaboutIntersectionAtExit
  | ExitRoundaboutIntersection | StayOnRoundabout | Sliproad

datatype DirectionModifier =
  UTurn | SharpRight | Right | SlightRight | Straight | SlightLeft | Left | SharpLeft

record TurnInstruction =
  turn_type :: TurnType
  direction_modifier :: DirectionModifier

text \<open>
  Modelled from the spec: \<open>TurnInstruction::NO_TURN()\<close> is missing.  It is the
  instruction of the type \<open>NoTurn\<close> (section 4.9, step 1); its modifier is the first of
  the enumeration.
\<close>

definition NO_TURN :: TurnInstruction where
  "NO_TURN = \<lparr>turn_type = NoTurn, direction_modifier = UTurn\<rparr>"

text \<open>\<open>WaypointType::None\<close> is called \<open>WaypointNone\<close> here.\<close>

datatype WaypointType = WaypointNone | Arrive | Depart

text \<open>
  The fields of \<open>StepManeuver\<close> (step\_maneuver.hpp is missing) that the
  post-processing reads and writes, and the ones section 3 lists.  Bearings are
  \<open>short\<close> in the source, distances and durations \<open>double\<close>: they are integers and
  reals here, so sums of distances are exact.
\<close>

record StepManeuver =
  maneuver_location :: Coordinate
  bearing_before :: int
  bearing_after :: int
  instruction :: TurnInstruction
  waypoint_type :: WaypointType
  exit :: nat

record LaneTupel =
  lanes_in_turn :: nat
  first_lane_from_the_right :: nat

text \<open>The fields \<open>in\<close> and \<open>out\<close> are called \<open>intersection_in\<close> and \<open>intersection_out\<close>.\<close>

record Intersection =
  intersection_location :: Coordinate
  bearings :: "int list"
  entry :: "bool list"
  intersection_in :: nat
  intersection_out :: nat
  lanes :: LaneTupel
  lane_description :: "nat list"

definition NO_INDEX :: nat where
  "NO_INDEX = 18446744073709551615"

definition INVALID_LANEID :: nat where
  "INVALID_LANEID = 255"

definition LaneTupel_default :: LaneTupel where
  "LaneTupel_default = \<lparr>lanes_in_turn = 0, first_lane_from_the_right = INVALID_LANEID\<rparr>"

definition getInvalidIntersection :: Intersection where
  "getInvalidIntersection =
     \<lparr>intersection_location = \<lparr>lon = 0, lat = 0\<rparr>, bearings = [], entry = [],
      intersection_in = NO_INDEX, intersection_out = NO_INDEX,
      lanes = LaneTupel_default, lane_description = []\<rparr>"

record RouteStep =
  name_id :: nat
  name :: string
  ref :: string
  pronunciation :: string
  destinations :: string
  rotary_name :: string
  rotary_pronunciation :: string
  duration :: real
  distance :: real
  mode :: nat
  maneuver :: StepManeuver
  geometry_begin :: nat
  geometry_end :: nat
  intersections :: "Intersection list"

text \<open>
  Modelled from the spec: \<open>getInvalidStepManeuver\<close> and \<open>TRAVEL_MODE_INACCESSIBLE\<close>
  are missing.  Section 4.9, step 3: an invalidated step is one whose instruction is
  \<open>NO_TURN\<close> and whose waypoint type is None; the other fields of its maneuver are zero.
\<close>

definition getInvalidStepManeuver :: StepManeuver where
  "getInvalidStepManeuver =
     \<lparr>maneuver_location = \<lparr>lon = 0, lat = 0\<rparr>, bearing_before = 0, bearing_after = 0,
      instruction = NO_TURN, waypoint_type = WaypointNone, exit = 0\<rparr>"

definition TRAVEL_MODE_INACCESSIBLE :: nat where
  "TRAVEL_MODE_INACCESSIBLE = 0"

definition getInvalidRouteStep :: RouteStep where
  "getInvalidRouteStep =
     \<lparr>name_id = 0, name = [], ref = [], pronunciation = [], destinations = [],
      rotary_name = [], rotary_pronunciation = [], duration = 0, distance = 0,
      mode = TRAVEL_MODE_INACCESSIBLE, maneuver = getInvalidStepManeuver,
      geometry_begin = 0, geometry_end = 0, intersections = [getInvalidIntersection]\<rparr>"

text \<open>Reading and writing \<open>step.maneuver.instruction.type\<close> and its neighbours.\<close>

definition step_type :: "RouteStep \<Rightarrow> TurnType" where
  "step_type step = turn_type (instruction (maneuver step))"

definition step_modifier :: "RouteStep \<Rightarrow> DirectionModifier" where
  "step_modifier step = direction_modifier (instruction (maneuver step))"

definition set_instruction :: "TurnInstruction \<Rightarrow> RouteStep \<Rightarrow> RouteStep" where
  "set_instruction i step = step\<lparr>maneuver := (maneuver step)\<lparr>instruction := i\<rparr>\<rparr>"

definition set_type :: "TurnType \<Rightarrow> RouteStep \<Rightarrow> RouteStep" where
  "set_type t step = set_instruction ((instruction (maneuver step))\<lparr>turn_type := t\<rparr>) step"

definition set_modifier :: "DirectionModifier \<Rightarrow> RouteStep \<Rightarrow> RouteStep" where
  "set_modifier m step =
     set_instruction ((instruction (maneuver step))\<lparr>direction_modifier := m\<rparr>) step"

definition set_exit :: "nat \<Rightarrow> RouteStep \<Rightarrow> RouteStep" where
  "set_exit e step = step\<lparr>maneuver := (maneuver step)\<lparr>exit := e\<rparr>\<rparr>"

definition front :: "Intersection list \<Rightarrow> Intersection" where
  "front is = hd is"

text \<open>Writing a field of \<open>step.intersections.front()\<close>.\<close>

definition map_front :: "(Intersection \<Rightarrow> Intersection) \<Rightarrow> RouteStep \<Rightarrow> RouteStep" where
  "map_front f step =
     step\<lparr>intersections :=
            (case intersections step of [] \<Rightarrow> [] | i # is \<Rightarrow> f i # is)\<rparr>"

text \<open>
  The helpers of headers that are missing (engine/guidance/toolkit.hpp,
  util/guidance/toolkit.hpp, util/bearing.hpp, util/typedefs.hpp) are parameters of
  the model.
\<close>

record Toolkit =
  requiresNameAnnounced :: "string \<Rightarrow> string \<Rightarrow> string \<Rightarrow> string \<Rightarrow> bool"
  entersRoundabout :: "TurnInstruction \<Rightarrow> bool"
  leavesRoundabout :: "TurnInstruction \<Rightarrow> bool"
  isSilent :: "TurnInstruction \<Rightarrow> bool"
  getTurnDirection :: "real \<Rightarrow> DirectionModifier"
  angularDeviation :: "real \<Rightarrow> real \<Rightarrow> real"
  reverseBearing :: "real \<Rightarrow> real"
  mirrorDirectionModifier :: "DirectionModifier \<Rightarrow> DirectionModifier"
  EMPTY_NAMEID :: nat

section \<open>Guidance post-processing (engine/guidance/post\_processing.cpp)\<close>

text \<open>
  The vector \<open>steps\<close> is a list; \<open>steps[i] = v\<close> is \<open>steps[i := v]\<close> and a reference
  \<open>auto &step = steps[i]\<close> is read again as \<open>steps ! i\<close> at each use, so that a write
  through another name is seen.  The source reads and writes inside the vector only
  (its assertions say so); the model does not check the indices.
\<close>

definition MIN_END_OF_ROAD_INTERSECTIONS :: nat where
  "MIN_END_OF_ROAD_INTERSECTIONS = 2"

definition MAX_COLLAPSE_DISTANCE :: real where
  "MAX_COLLAPSE_DISTANCE = 30"

definition hasManeuver :: "RouteStep \<Rightarrow> RouteStep \<Rightarrow> bool" where
  "hasManeuver first second \<longleftrightarrow>
     step_type first \<noteq> Suppressed \<or> step_type second \<noteq> Suppressed"

definition forwardStepSignage :: "RouteStep \<Rightarrow> RouteStep \<Rightarrow> RouteStep" where
  "forwardStepSignage destination origin =
     destination\<lparr>name_id := name_id origin, name := name origin,
                  pronunciation := pronunciation origin,
                  destinations := destinations origin, ref := ref origin\<rparr>"

definition choiceless :: "RouteStep \<Rightarrow> RouteStep \<Rightarrow> bool" where
  "choiceless step previous \<longleftrightarrow>
     distance previous < 4 * MAX_COLLAPSE_DISTANCE \<and>
     1 \<ge> count_list (entry (front (intersections step))) True"

definition isCollapsableInstruction :: "TurnInstruction \<Rightarrow> bool" where
  "isCollapsableInstruction instr \<longleftrightarrow>
     turn_type instr = NewName \<or>
     (turn_type instr = Suppressed \<and> direction_modifier instr = Straight) \<or>
     (turn_type instr = Turn \<and> direction_modifier instr = Straight) \<or>
     (turn_type instr = Continue \<and> direction_modifier instr = Straight) \<or>
     turn_type instr = Merge"

definition compatible :: "RouteStep \<Rightarrow> RouteStep \<Rightarrow> bool" where
  "compatible lhs rhs \<longleftrightarrow> mode lhs = mode rhs"

definition turn_angle :: "real \<Rightarrow> real \<Rightarrow> real" where
  "turn_angle entry_bearing exit_bearing =
     (let offset = 360 - entry_bearing;
          rotated_exit = (let bearing = exit_bearing + offset
                          in if bearing > 360 then bearing - 360 else bearing);
          angle = 540 - rotated_exit
      in if angle > 360 then angle - 360 else angle)"

definition isNoticeableNameChange :: "Toolkit \<Rightarrow> RouteStep \<Rightarrow> RouteStep \<Rightarrow> bool" where
  "isNoticeableNameChange tk lhs rhs =
     requiresNameAnnounced tk (name lhs) (ref lhs) (name rhs) (ref rhs)"

text \<open>The loop of \<open>nameSegmentLength\<close>, with the running index and sum.\<close>

function name_segment_loop :: "Toolkit \<Rightarrow> RouteStep list \<Rightarrow> nat \<Rightarrow> real \<Rightarrow> real" where
  "name_segment_loop tk steps at_index result =
     (if at_index + 1 < length steps \<and>
         \<not> isNoticeableNameChange tk (steps ! at_index) (steps ! (at_index + 1))
      then name_segment_loop tk steps (at_index + 1) (result + distance (steps ! (at_index + 1)))
      else result)"
  by pat_completeness auto
termination
  by (relation "measure (\<lambda>(tk, steps, at_index, result). length steps - at_index)") auto

definition nameSegmentLength :: "Toolkit \<Rightarrow> nat \<Rightarrow> RouteStep list \<Rightarrow> real" where
  "nameSegmentLength tk at_index steps = name_segment_loop tk steps at_index (distance (steps ! at_index))"

definition forwardInto :: "RouteStep \<Rightarrow> RouteStep \<Rightarrow> RouteStep" where
  "forwardInto destination source =
     destination
       \<lparr>duration := duration destination + duration source,
        distance := distance destination + distance source,
        maneuver := (maneuver destination)\<lparr>exit := exit (maneuver source)\<rparr>,
        intersections :=
          (if geometry_begin destination < geometry_begin source
           then intersections destination @ intersections source
           else intersections source @ intersections destination),
        geometry_begin := min (geometry_begin destination) (geometry_begin source),
        geometry_end := max (geometry_end destination) (geometry_end source)\<rparr>"

text \<open>
  \<open>fixFinalRoundabout\<close>: the loop runs \<open>propagation_index\<close> from the last step down
  to 1 and returns at the first step that enters a roundabout.
\<close>

fun fix_final_loop :: "Toolkit \<Rightarrow> nat \<Rightarrow> RouteStep list \<Rightarrow> RouteStep list" where
  "fix_final_loop tk 0 steps = steps"
| "fix_final_loop tk (Suc k) steps =
     (let propagation_index = Suc k;
          propagation_step = steps ! propagation_index
      in if entersRoundabout tk (instruction (maneuver propagation_step)) then
           (let step1 = set_exit 0 propagation_step;
                step2 =
                  (if step_type step1 = EnterRotary \<or> step_type step1 = EnterRotaryAtExit
                   then step1\<lparr>rotary_name := name step1,
                              rotary_pronunciation := pronunciation step1\<rparr>
                   else if step_type step1 = EnterRoundaboutIntersection \<or>
                           step_type step1 = EnterRoundaboutIntersectionAtExit
                   then set_type EnterRoundabout step1
                   else step1)
            in steps[propagation_index := step2])
         else if step_type propagation_step = StayOnRoundabout then
           fix_final_loop tk k
             (steps[propagation_index - 1 :=
                      forwardInto (steps ! (propagation_index - 1)) propagation_step,
                    propagation_index := getInvalidRouteStep])
         else fix_final_loop tk k steps)"

definition fixFinalRoundabout :: "Toolkit \<Rightarrow> RouteStep list \<Rightarrow> RouteStep list" where
  "fixFinalRoundabout tk steps = fix_final_loop tk (length steps - 1) steps"

text \<open>\<open>setUpRoundabout\<close> returns its result and the step it changed in place.\<close>

definition setUpRoundabout :: "Toolkit \<Rightarrow> RouteStep \<Rightarrow> bool \<times> RouteStep" where
  "setUpRoundabout tk step =
     (let instr = instruction (maneuver step);
          step1 =
            (if turn_type instr = EnterRotaryAtExit \<or>
                turn_type instr = EnterRoundaboutAtExit \<or>
                turn_type instr = EnterRoundaboutIntersectionAtExit
             then set_type
                    (if turn_type instr = EnterRotaryAtExit then EnterRotary
                     else if turn_type instr = EnterRoundaboutAtExit then EnterRoundabout
                     else EnterRoundaboutIntersection)
                    (set_exit 1 step)
             else step)
      in if leavesRoundabout tk instr then
           (False,
            set_type
              (if turn_type instr = EnterAndExitRotary then EnterRotary
               else if turn_type instr = EnterAndExitRoundabout then EnterRoundabout
               else EnterRoundaboutIntersection)
              (set_exit 1 step1))
         else (True, step1))"

definition exitToEnter :: "TurnType \<Rightarrow> TurnType" where
  "exitToEnter t =
     (if ExitRotary = t then EnterRotary
      else if t = ExitRoundaboutIntersection then EnterRoundabout
      else EnterRoundabout)"

text \<open>
  The backward loop of \<open>closeOffRoundabout\<close>: \<open>propagation_index\<close> runs from
  \<open>step_index - 1\<close> down to 1 and the loop breaks at the step that enters.
\<close>

fun propagate_exit ::
  "Toolkit \<Rightarrow> real \<Rightarrow> RouteStep \<Rightarrow> nat \<Rightarrow> RouteStep list \<Rightarrow> RouteStep list" where
  "propagate_exit tk exit_bearing destination_copy 0 steps = steps"
| "propagate_exit tk exit_bearing destination_copy (Suc k) steps =
     (let propagation_index = Suc k;
          propagation_step =
            forwardInto (steps ! propagation_index) (steps ! (propagation_index + 1))
      in if entersRoundabout tk (instruction (maneuver propagation_step)) then
           (let entry_intersection = front (intersections propagation_step);
                step1 =
                  (if step_type propagation_step = EnterRotary \<or>
                      step_type propagation_step = EnterRotaryAtExit
                   then propagation_step
                          \<lparr>rotary_name := name propagation_step,
                           rotary_pronunciation := pronunciation propagation_step\<rparr>
                   else if step_type propagation_step = EnterRoundaboutIntersection \<or>
                           step_type propagation_step = EnterRoundaboutIntersectionAtExit
                   then set_modifier
                          (getTurnDirection tk
                             (turn_angle
                                (reverseBearing tk
                                   (real_of_int (bearings entry_intersection !
                                      intersection_in entry_intersection)))
                                exit_bearing))
                          propagation_step
                   else propagation_step)
            in steps[propagation_index := forwardStepSignage step1 destination_copy,
                     propagation_index + 1 := getInvalidRouteStep])
         else propagate_exit tk exit_bearing destination_copy k
                (steps[propagation_index := propagation_step,
                       propagation_index + 1 := getInvalidRouteStep]))"

definition closeOffRoundabout ::
  "Toolkit \<Rightarrow> bool \<Rightarrow> RouteStep list \<Rightarrow> nat \<Rightarrow> RouteStep list" where
  "closeOffRoundabout tk on_roundabout steps0 step_index =
     (let steps1 = steps0[step_index :=
                     set_exit (exit (maneuver (steps0 ! step_index)) + 1) (steps0 ! step_index)];
          steps2 =
            (if \<not> on_roundabout then
               (let a = steps1[0 := (steps1 ! 0)\<lparr>geometry_end := 1\<rparr>];
                    b = a[1 := (a ! 1)\<lparr>geometry_begin := 0\<rparr>];
                    c = b[1 := forwardInto (b ! 1) (b ! 0)];
                    d = c[1 := (c ! 1)\<lparr>intersections := tl (intersections (c ! 1))\<rparr>];
                    e = (if leavesRoundabout tk (instruction (maneuver (d ! 1)))
                         then d[1 := set_exit 1 (d ! 1)] else d);
                    f = e[0 := (e ! 0)\<lparr>duration := 0, distance := 0\<rparr>];
                    g = f[1 := set_type (exitToEnter (step_type (f ! step_index))) (f ! 1)]
                in if step_type (g ! 1) = EnterRotary
                   then g[1 := (g ! 1)\<lparr>rotary_name := name (g ! 0),
                                        rotary_pronunciation := pronunciation (g ! 0)\<rparr>]
                   else g)
             else steps1);
          exit_intersection = front (intersections (steps2 ! step_index));
          exit_bearing =
            real_of_int (bearings exit_intersection ! intersection_out exit_intersection);
          destination_copy = steps2 ! step_index
      in if step_index > 1
         then propagate_exit tk exit_bearing destination_copy (step_index - 1) steps2
         else steps2)"

definition bearingsAreReversed :: "Toolkit \<Rightarrow> real \<Rightarrow> real \<Rightarrow> bool" where
  "bearingsAreReversed tk bearing_in bearing_out =
     (let left_turn_angle =
            (if 0 \<le> bearing_out \<and> bearing_out \<le> bearing_in then bearing_in - bearing_out
             else bearing_in + 360 - bearing_out)
      in angularDeviation tk left_turn_angle 180 \<le> 35)"

definition getBearing :: "bool \<Rightarrow> RouteStep \<Rightarrow> real" where
  "getBearing in_flag step =
     (let index = (if in_flag then intersection_in (front (intersections step))
                   else intersection_out (front (intersections step)))
      in real_of_int (bearings (front (intersections step)) ! index))"

text \<open>\<open>elongate\<close>: the data of \<open>by_step\<close> is added at the back or at the front.\<close>

definition elongate :: "RouteStep \<Rightarrow> RouteStep \<Rightarrow> RouteStep" where
  "elongate step by_step =
     (let step1 = step\<lparr>duration := duration step + duration by_step,
                        distance := distance step + distance by_step\<rparr>
      in if geometry_end step1 = geometry_begin by_step + 1
         then step1\<lparr>geometry_end := geometry_end by_step,
                    intersections := intersections step1 @ intersections by_step\<rparr>
         else step1\<lparr>geometry_begin := geometry_begin by_step,
                    maneuver := maneuver by_step,
                    intersections := intersections by_step @ intersections step1\<rparr>)"

definition collapsable :: "RouteStep \<Rightarrow> RouteStep \<Rightarrow> bool" where
  "collapsable step next_step =
     (let is_short_step = distance step < MAX_COLLAPSE_DISTANCE;
          instruction_can_be_collapsed = isCollapsableInstruction (instruction (maneuver step));
          is_use_lane = (step_type step = UseLane);
          lanes_dont_change =
            (lanes (front (intersections step)) = lanes (front (intersections next_step)))
      in if is_short_step \<and> instruction_can_be_collapsed then True
         else if is_short_step \<and> is_use_lane \<and> lanes_dont_change then True
         else False)"

definition collapseTurnAt ::
  "Toolkit \<Rightarrow> RouteStep list \<Rightarrow> nat \<Rightarrow> nat \<Rightarrow> nat \<Rightarrow> RouteStep list" where
  "collapseTurnAt tk steps two_back_index one_back_index step_index =
     (let current_step = steps ! step_index;
          one_back_step = steps ! one_back_index
      in if \<not> hasManeuver one_back_step current_step then steps
         else if (collapsable one_back_step current_step \<or>
                  (isCollapsableInstruction (instruction (maneuver one_back_step)) \<and>
                   choiceless current_step one_back_step)) \<and>
                 \<not> (step_type one_back_step = Merge)
         then
           (if compatible one_back_step (steps ! two_back_index) then
              (let s1 =
                     (if Continue = step_type current_step \<or>
                         (Suppressed = step_type current_step \<and>
                          step_modifier current_step \<noteq> Straight)
                      then steps[step_index := set_type Turn (steps ! step_index)]
                      else if Merge = step_type current_step
                      then steps[step_index :=
                             set_type Turn
                               (set_modifier
                                  (mirrorDirectionModifier tk (step_modifier (steps ! step_index)))
                                  (steps ! step_index))]
                      else if NewName = step_type current_step \<and>
                              step_modifier current_step \<noteq> Straight \<and>
                              length (bearings (front (intersections one_back_step))) > 2
                      then steps[step_index := set_type Turn (steps ! step_index)]
                      else if UseLane = step_type current_step \<and>
                              step_modifier current_step \<noteq> Straight \<and>
                              length (bearings (front (intersections one_back_step))) > 2
                      then steps[step_index := set_type Turn (steps ! step_index)]
                      else steps);
                   s2 = s1[two_back_index :=
                             elongate (s1 ! two_back_index) (s1 ! one_back_index)]
               in s2[one_back_index := getInvalidRouteStep])
            else steps)
         else if distance one_back_step \<le> MAX_COLLAPSE_DISTANCE \<and>
                 isCollapsableInstruction (instruction (maneuver current_step))
         then
           (if compatible one_back_step current_step then
              (let s1 = steps[one_back_index :=
                              elongate (steps ! one_back_index) (steps ! step_index)];
                   s2 =
                     (if (Continue = step_type (s1 ! one_back_index) \<or>
                          Suppressed = step_type (s1 ! one_back_index)) \<and>
                         isNoticeableNameChange tk (s1 ! two_back_index) (s1 ! step_index)
                      then s1[one_back_index := set_type Turn (s1 ! one_back_index)]
                      else if Turn = step_type (s1 ! one_back_index) \<and>
                              \<not> isNoticeableNameChange tk (s1 ! two_back_index) (s1 ! step_index)
                      then
                        (let a = s1[one_back_index := set_type Continue (s1 ! one_back_index)]
                         in if bearingsAreReversed tk
                                 (reverseBearing tk (getBearing True (a ! one_back_index)))
                                 (getBearing False (a ! step_index))
                            then a[one_back_index :=
                                     set_modifier UTurn (set_type Continue (a ! one_back_index))]
                            else a)
                      else if Merge = step_type (s1 ! one_back_index) \<and>
                              step_type (s1 ! step_index) \<noteq> Suppressed
                      then s1[one_back_index :=
                                set_modifier
                                  (mirrorDirectionModifier tk (step_modifier (s1 ! one_back_index)))
                                  (s1 ! one_back_index)]
                      else s1);
                   s3 = s2[one_back_index :=
                             forwardStepSignage (s2 ! one_back_index) (s2 ! step_index)]
               in s3[step_index := getInvalidRouteStep])
            else steps)
         else if (distance one_back_step \<le> MAX_COLLAPSE_DISTANCE \<or>
                  choiceless current_step one_back_step) \<and>
                 bearingsAreReversed tk
                   (reverseBearing tk (getBearing True one_back_step))
                   (getBearing False current_step) \<and>
                 compatible one_back_step current_step
         then
           (let direct_u_turn =
                  (\<not> isNoticeableNameChange tk (steps ! two_back_index) current_step);
                next_step_index = step_index + 1;
                continues_with_name_change =
                  (next_step_index < length steps \<and>
                   (step_type (steps ! next_step_index) = UseLane \<or>
                    isCollapsableInstruction (instruction (maneuver (steps ! next_step_index)))));
                u_turn_with_name_change =
                  (continues_with_name_change \<and>
                   \<not> isNoticeableNameChange tk (steps ! two_back_index) (steps ! next_step_index))
            in if direct_u_turn \<or> u_turn_with_name_change then
                 (let s1 = steps[one_back_index :=
                                 elongate (steps ! one_back_index) (steps ! step_index)];
                      s2 = s1[step_index := getInvalidRouteStep];
                      s3 =
                        (if u_turn_with_name_change \<and>
                            compatible (s2 ! one_back_index) (s2 ! next_step_index)
                         then
                           (let a = s2[one_back_index :=
                                        elongate (s2 ! one_back_index) (s2 ! next_step_index)];
                                b = a[next_step_index := getInvalidRouteStep]
                            in b[one_back_index :=
                                   forwardStepSignage (b ! one_back_index) (b ! two_back_index)])
                         else s2);
                      s4 =
                        (if direct_u_turn
                         then s3[one_back_index :=
                                   forwardStepSignage (s3 ! one_back_index) (s3 ! two_back_index)]
                         else s3)
                  in s4[one_back_index :=
                          set_modifier UTurn (set_type Continue (s4 ! one_back_index))])
               else steps)
         else steps)"

definition MAX_STAGGERED_DISTANCE :: real where
  "MAX_STAGGERED_DISTANCE = 3"

definition staggered_angle :: "RouteStep \<Rightarrow> real" where
  "staggered_angle step =
     (let intersection = front (intersections step);
          entry_bearing = real_of_int (bearings intersection ! intersection_in intersection);
          exit_bearing = real_of_int (bearings intersection ! intersection_out intersection)
      in turn_angle entry_bearing exit_bearing)"

definition isStaggeredIntersection :: "RouteStep \<Rightarrow> RouteStep \<Rightarrow> bool" where
  "isStaggeredIntersection previous current =
     (let is_right = (\<lambda>angle::real. angle > 45 \<and> angle < 135);
          is_left = (\<lambda>angle::real. angle > 225 \<and> angle < 315);
          left_right = (is_left (staggered_angle previous) \<and> is_right (staggered_angle current));
          right_left = (is_right (staggered_angle previous) \<and> is_left (staggered_angle current));
          is_short = (distance previous < MAX_STAGGERED_DISTANCE)
      in is_short \<and> (left_right \<or> right_left))"

text \<open>
  \<open>removeNoTurnInstructions\<close>: \<open>boost::remove_erase_if\<close> keeps, in order, the steps for
  which the predicate is false.  The assertions that follow it in the source are the
  invariant \<open>depart_arrive_invariant\<close> below.
\<close>

definition not_is_valid :: "RouteStep \<Rightarrow> bool" where
  "not_is_valid step \<longleftrightarrow>
     instruction (maneuver step) = NO_TURN \<and> waypoint_type (maneuver step) = WaypointNone"

definition removeNoTurnInstructions :: "RouteStep list \<Rightarrow> RouteStep list" where
  "removeNoTurnInstructions steps = filter (\<lambda>step. \<not> not_is_valid step) steps"

text \<open>
  The body of the loop of \<open>postProcess\<close>; the state is the vector and the two flags
  \<open>on_roundabout\<close> and \<open>has_entered_roundabout\<close>.  No iteration changes the size of the
  vector, so the loop runs over the indices of the vector it starts with.
\<close>

definition post_process_step ::
  "Toolkit \<Rightarrow> nat \<Rightarrow> RouteStep list \<times> bool \<times> bool \<Rightarrow> RouteStep list \<times> bool \<times> bool" where
  "post_process_step tk step_index st =
     (case st of (steps, on_roundabout, has_entered_roundabout) \<Rightarrow>
        (let next_step_index = step_index + 1;
             instr = instruction (maneuver (steps ! step_index))
         in if entersRoundabout tk instr then
              (let r = setUpRoundabout tk (steps ! step_index);
                   s1 = steps[step_index := snd r]
               in (if fst r \<and> next_step_index < length s1
                   then s1[next_step_index :=
                             set_exit (exit (maneuver (s1 ! step_index))) (s1 ! next_step_index)]
                   else s1,
                   on_roundabout, fst r))
            else if turn_type instr = StayOnRoundabout then
              (let s1 = steps[step_index :=
                              set_exit (exit (maneuver (steps ! step_index)) + 1)
                                (steps ! step_index)]
               in (if next_step_index < length s1
                   then s1[next_step_index :=
                             set_exit (exit (maneuver (s1 ! step_index))) (s1 ! next_step_index)]
                   else s1,
                   True, has_entered_roundabout))
            else if leavesRoundabout tk instr then
              (closeOffRoundabout tk has_entered_roundabout steps step_index, False, False)
            else if on_roundabout \<and> next_step_index < length steps then
              (steps[next_step_index :=
                       set_exit (exit (maneuver (steps ! step_index))) (steps ! next_step_index)],
               on_roundabout, has_entered_roundabout)
            else st))"

definition postProcess :: "Toolkit \<Rightarrow> RouteStep list \<Rightarrow> RouteStep list" where
  "postProcess tk steps =
     (if length steps = 2 then steps
      else
        (case fold (post_process_step tk) [0..<length steps] (steps, False, False) of
           (steps1, on_roundabout, has_entered_roundabout) \<Rightarrow>
             removeNoTurnInstructions
               (if has_entered_roundabout \<or> on_roundabout
                then fixFinalRoundabout tk steps1 else steps1)))"

text \<open>The lambdas of \<open>collapseTurns\<close>; they read the vector as it is when they are called.\<close>

fun previous_index_loop :: "RouteStep list \<Rightarrow> nat \<Rightarrow> nat" where
  "previous_index_loop steps 0 = 0"
| "previous_index_loop steps (Suc k) =
     (if step_type (steps ! Suc k) = NoTurn then previous_index_loop steps k else Suc k)"

definition getPreviousIndex :: "RouteStep list \<Rightarrow> nat \<Rightarrow> nat" where
  "getPreviousIndex steps index = previous_index_loop steps (index - 1)"

fun previous_name_index_loop :: "Toolkit \<Rightarrow> RouteStep list \<Rightarrow> nat \<Rightarrow> nat" where
  "previous_name_index_loop tk steps 0 = 0"
| "previous_name_index_loop tk steps (Suc k) =
     (if name_id (steps ! Suc k) = EMPTY_NAMEID tk
      then previous_name_index_loop tk steps k else Suc k)"

definition getPreviousNameIndex :: "Toolkit \<Rightarrow> RouteStep list \<Rightarrow> nat \<Rightarrow> nat" where
  "getPreviousNameIndex tk steps index = previous_name_index_loop tk steps (index - 1)"

definition canCollapseAll :: "RouteStep list \<Rightarrow> nat \<Rightarrow> nat \<Rightarrow> bool" where
  "canCollapseAll steps index end_index =
     list_all
       (\<lambda>index.
          \<not> (step_type (steps ! index) \<noteq> Suppressed \<and> step_type (steps ! index) \<noteq> NewName) \<and>
          \<not> (index + 1 < end_index \<and> \<not> compatible (steps ! index) (steps ! (index + 1))))
       [index..<end_index]"

definition name_segment_cutoff_length :: real where
  "name_segment_cutoff_length = 100"

definition isBasicNameChange :: "RouteStep \<Rightarrow> bool" where
  "isBasicNameChange step \<longleftrightarrow>
     length (intersections step) = 1 \<and>
     length (bearings (front (intersections step))) = 2 \<and>
     Straight = step_modifier step"

text \<open>One iteration of the inner loop that folds a run of name changes.\<close>

definition collapse_into_name ::
  "nat \<Rightarrow> nat \<Rightarrow> RouteStep list \<Rightarrow> RouteStep list" where
  "collapse_into_name last_available_name_index index steps =
     (steps[last_available_name_index :=
              elongate (steps ! last_available_name_index) (steps ! index)])
       [index := getInvalidRouteStep]"

definition collapse_sliproad :: "Toolkit \<Rightarrow> nat \<Rightarrow> nat \<Rightarrow> RouteStep list \<Rightarrow> RouteStep list" where
  "collapse_sliproad tk one_back_index step_index steps =
     (if step_type (steps ! step_index) = Suppressed \<and>
         compatible (steps ! one_back_index) (steps ! step_index)
      then (steps[one_back_index := elongate (steps ! one_back_index) (steps ! step_index)])
             [step_index := getInvalidRouteStep]
      else if compatible (steps ! one_back_index) (steps ! step_index) then
        (let s1 =
               (if \<not> isNoticeableNameChange tk
                       (steps ! getPreviousIndex steps one_back_index) (steps ! step_index)
                then steps[one_back_index := set_type Continue (steps ! one_back_index)]
                else steps[one_back_index := set_type Turn (steps ! one_back_index)]);
             s2 = s1[one_back_index := elongate (s1 ! one_back_index) (s1 ! step_index)];
             s3 = s2[one_back_index := forwardStepSignage (s2 ! one_back_index) (s2 ! step_index)];
             s4 = s3[one_back_index :=
                       map_front (\<lambda>i. i\<lparr>lanes := lanes (front (intersections (s3 ! step_index)))\<rparr>)
                         (s3 ! one_back_index)];
             s5 = s4[one_back_index :=
                       map_front
                         (\<lambda>i. i\<lparr>lane_description :=
                                   lane_description (front (intersections (s4 ! step_index)))\<rparr>)
                         (s4 ! one_back_index)];
             exit_intersection = front (intersections (s5 ! step_index));
             exit_bearing =
               real_of_int (bearings exit_intersection ! intersection_out exit_intersection);
             entry_intersection = front (intersections (s5 ! one_back_index));
             entry_bearing =
               real_of_int (bearings entry_intersection ! intersection_in entry_intersection);
             angle = turn_angle (reverseBearing tk entry_bearing) exit_bearing;
             s6 = s5[one_back_index :=
                       set_modifier (getTurnDirection tk angle) (s5 ! one_back_index)]
         in s6[step_index := getInvalidRouteStep])
      else steps[one_back_index := set_type Turn (steps ! one_back_index)])"

definition collapse_name_oscillation ::
  "Toolkit \<Rightarrow> nat \<Rightarrow> nat \<Rightarrow> RouteStep list \<Rightarrow> RouteStep list" where
  "collapse_name_oscillation tk one_back_index step_index steps =
     (let next_step_index = step_index + 1;
          current_step = steps ! step_index;
          one_back_step = steps ! one_back_index;
          two_back_index = getPreviousIndex steps one_back_index
      in if \<not> isNoticeableNameChange tk (steps ! two_back_index) current_step then
           (if compatible one_back_step (steps ! two_back_index)
            then (steps[two_back_index :=
                          elongate (elongate (steps ! two_back_index) (steps ! one_back_index))
                            (steps ! step_index)])
                   [one_back_index := getInvalidRouteStep, step_index := getInvalidRouteStep]
            else steps)
         else if nameSegmentLength tk one_back_index steps < name_segment_cutoff_length \<and>
                 isBasicNameChange one_back_step \<and> isBasicNameChange current_step then
           (if compatible (steps ! two_back_index) (steps ! one_back_index) then
              (let s1 = (steps[two_back_index :=
                                 elongate (steps ! two_back_index) (steps ! one_back_index)])
                          [one_back_index := getInvalidRouteStep]
               in if nameSegmentLength tk step_index s1 < name_segment_cutoff_length
                  then (s1[two_back_index :=
                             elongate (s1 ! two_back_index) (s1 ! step_index)])
                         [step_index := getInvalidRouteStep]
                  else s1)
            else steps)
         else if step_index + 2 < length steps \<and>
                 step_type current_step = NewName \<and>
                 step_type (steps ! next_step_index) = NewName \<and>
                 \<not> isNoticeableNameChange tk one_back_step (steps ! next_step_index) then
           (if compatible (steps ! step_index) (steps ! next_step_index)
            then (steps[one_back_index :=
                          elongate (steps ! one_back_index)
                            (elongate (steps ! step_index) (steps ! next_step_index))])
                   [step_index := getInvalidRouteStep, next_step_index := getInvalidRouteStep]
            else steps)
         else if choiceless current_step one_back_step \<or>
                 distance one_back_step \<le> MAX_COLLAPSE_DISTANCE then
           collapseTurnAt tk steps (getPreviousIndex steps one_back_index) one_back_index
             step_index
         else steps)"

text \<open>The body of the main loop of \<open>collapseTurns\<close>.\<close>

definition collapse_step :: "Toolkit \<Rightarrow> nat \<Rightarrow> RouteStep list \<Rightarrow> RouteStep list" where
  "collapse_step tk step_index steps =
     (let current_step = steps ! step_index;
          next_step_index = step_index + 1
      in if step_type current_step = NoTurn then steps
         else
           (let one_back_index = getPreviousIndex steps step_index;
                one_back_step = steps ! one_back_index
            in if \<not> hasManeuver one_back_step current_step then steps
               else if step_type one_back_step = Sliproad then
                 collapse_sliproad tk one_back_index step_index steps
               else if isCollapsableInstruction (instruction (maneuver current_step)) \<and>
                       step_type current_step \<noteq> Suppressed \<and>
                       \<not> isNoticeableNameChange tk
                           (steps ! getPreviousNameIndex tk steps step_index) current_step \<and>
                       canCollapseAll steps (getPreviousNameIndex tk steps step_index + 1)
                         next_step_index then
                 (let last_available_name_index = getPreviousNameIndex tk steps step_index
                  in fold (collapse_into_name last_available_name_index)
                       [last_available_name_index + 1..<step_index + 1] steps)
               else if one_back_index > 0 \<and> compatible current_step one_back_step \<and>
                       ((isCollapsableInstruction (instruction (maneuver current_step)) \<and>
                         isCollapsableInstruction (instruction (maneuver one_back_step))) \<or>
                        isStaggeredIntersection one_back_step current_step) then
                 collapse_name_oscillation tk one_back_index step_index steps
               else if one_back_index > 0 \<and>
                       (distance one_back_step \<le> MAX_COLLAPSE_DISTANCE \<or>
                        choiceless current_step one_back_step) then
                 collapseTurnAt tk steps (getPreviousIndex steps one_back_index) one_back_index
                   step_index
               else steps))"

text \<open>
  \<open>collapseTurns\<close>.  The loop \<open>for (step_index = 1; step_index + 1 < steps.size();
  ++step_index)\<close> never changes the size of the vector.
\<close>

definition handle_final_sliproad :: "RouteStep list \<Rightarrow> RouteStep list" where
  "handle_final_sliproad steps =
     (if length steps \<ge> 3 \<and>
         step_type (steps ! getPreviousIndex steps (length steps - 1)) = Sliproad
      then steps[getPreviousIndex steps (length steps - 1) :=
                   set_type Turn (steps ! getPreviousIndex steps (length steps - 1))]
      else steps)"

definition collapseTurns :: "Toolkit \<Rightarrow> RouteStep list \<Rightarrow> RouteStep list" where
  "collapseTurns tk steps =
     (if length steps \<le> 2 then steps
      else removeNoTurnInstructions
             (handle_final_sliproad
                (fold (collapse_step tk) [1..<length steps - 1] steps)))"

text \<open>
  The body of the loop of \<open>buildIntersections\<close>, with \<open>last_valid_instruction\<close>.
  \<open>elongate(std::move(steps[last_valid_instruction]), step)\<close> moves the step out of
  the vector before \<open>elongate\<close> reads \<open>by_step\<close>: when \<open>last_valid_instruction\<close> is
  \<open>step_index\<close> (step 0 carrying \<open>Suppressed\<close>), \<open>by_step\<close> is the moved-from step, whose
  strings and intersections are empty and whose other fields are as before.
\<close>

definition moved_from :: "RouteStep \<Rightarrow> RouteStep" where
  "moved_from step =
     step\<lparr>name := [], ref := [], pronunciation := [], destinations := [],
          rotary_name := [], rotary_pronunciation := [], intersections := []\<rparr>"

definition build_intersections_step ::
  "Toolkit \<Rightarrow> nat \<Rightarrow> RouteStep list \<times> nat \<Rightarrow> RouteStep list \<times> nat" where
  "build_intersections_step tk step_index st =
     (case st of (steps, last_valid_instruction) \<Rightarrow>
        (let instr = instruction (maneuver (steps ! step_index))
         in if turn_type instr = Suppressed then
              (let by_step = (if last_valid_instruction = step_index
                              then moved_from (steps ! step_index)
                              else steps ! step_index);
                   s1 = steps[last_valid_instruction :=
                              elongate (steps ! last_valid_instruction) by_step]
               in (s1[step_index := set_instruction NO_TURN (s1 ! step_index)],
                   last_valid_instruction))
            else if \<not> isSilent tk instr then
              (if turn_type instr = EndOfRoad \<and>
                  length (intersections (steps ! last_valid_instruction))
                    < MIN_END_OF_ROAD_INTERSECTIONS
               then steps[step_index := set_type Turn (steps ! step_index)]
               else steps,
               step_index)
            else st))"

definition buildIntersections :: "Toolkit \<Rightarrow> RouteStep list \<Rightarrow> RouteStep list" where
  "buildIntersections tk steps =
     removeNoTurnInstructions
       (fst (fold (build_intersections_step tk) [0..<length steps] (steps, 0)))"

text \<open>
  Modelled from the spec: the lane masks of turn\_lane\_types.hpp are missing.  Section 6
  enumerates the mask bits as none, straight, sharp-right, ...; \<open>none\<close> is bit 0 and
  \<open>straight\<close> bit 1.  A lane description is read from its end:
  \<open>*(lane_description.rbegin() + k)\<close> is the element at \<open>k\<close> of the reversed list.
\<close>

definition TurnLaneType_empty :: nat where
  "TurnLaneType_empty = 0"

definition TurnLaneType_none :: nat where
  "TurnLaneType_none = 1"

definition TurnLaneType_straight :: nat where
  "TurnLaneType_straight = 2"

definition containsTag :: "nat \<Rightarrow> nat \<Rightarrow> bool" where
  "containsTag lane_mask tag \<longleftrightarrow> and lane_mask tag \<noteq> TurnLaneType_empty"

definition canCollapeUseLane :: "LaneTupel \<Rightarrow> nat list \<Rightarrow> bool" where
  "canCollapeUseLane lanes_tupel description =
     (if first_lane_from_the_right lanes_tupel > 0 \<and>
         containsTag (rev description ! (first_lane_from_the_right lanes_tupel - 1))
           (or TurnLaneType_straight TurnLaneType_none)
      then False
      else
        (let lane_to_the_right =
               first_lane_from_the_right lanes_tupel + lanes_in_turn lanes_tupel
         in if lane_to_the_right < length description \<and>
               containsTag (rev description ! lane_to_the_right)
                 (or TurnLaneType_straight TurnLaneType_none)
            then False
            else True))"

definition collapse_use_lane_step :: "nat \<Rightarrow> RouteStep list \<Rightarrow> RouteStep list" where
  "collapse_use_lane_step step_index steps =
     (let step = steps ! step_index
      in if step_type step = UseLane \<and>
            canCollapeUseLane (lanes (front (intersections step)))
              (lane_description (front (intersections step)))
         then
           (let previous = getPreviousIndex steps step_index
            in (steps[previous := elongate (steps ! previous) (steps ! step_index)])
                 [step_index := getInvalidRouteStep])
         else steps)"

definition collapseUseLane :: "RouteStep list \<Rightarrow> RouteStep list" where
  "collapseUseLane steps =
     removeNoTurnInstructions (fold collapse_use_lane_step [1..<length steps] steps)"

text \<open>
  The invariant that the source asserts around each sweep: at least two steps, the first
  a Depart with one bearing and one entry flag in its first intersection, the last an
  Arrive with exactly one intersection of one bearing and one entry flag.
\<close>

definition depart_arrive_invariant :: "RouteStep list \<Rightarrow> bool" where
  "depart_arrive_invariant steps \<longleftrightarrow>
     length steps \<ge> 2 \<and>
     length (intersections (hd steps)) \<ge> 1 \<and>
     length (bearings (front (intersections (hd steps)))) = 1 \<and>
     length (entry (front (intersections (hd steps)))) = 1 \<and>
     waypoint_type (maneuver (hd steps)) = Depart \<and>
     length (intersections (last steps)) = 1 \<and>
     length (bearings (front (intersections (last steps)))) = 1 \<and>
     length (entry (front (intersections (last steps)))) = 1 \<and>
     waypoint_type (maneuver (last steps)) = Arrive"

text \<open>
  A leg as the assembly hands it to the passes: the invariant holds, the Depart and the
  Arrive step carry the type \<open>NoTurn\<close> and no step between them does, and each step
  begins at the last location of the step before it
  (\<open>step.geometry_end == by_step.geometry_begin + 1\<close>, the test of \<open>elongate\<close>).
\<close>

definition well_formed_leg :: "RouteStep list \<Rightarrow> bool" where
  "well_formed_leg steps \<longleftrightarrow>
     depart_arrive_invariant steps \<and>
     step_type (hd steps) = NoTurn \<and>
     step_type (last steps) = NoTurn \<and>
     list_all (\<lambda>i. step_type (steps ! i) \<noteq> NoTurn) [1..<length steps - 1] \<and>
     list_all (\<lambda>i. geometry_end (steps ! i) = geometry_begin (steps ! (i + 1)) + 1)
       [0..<length steps - 1]"

text \<open>
  The two halves of the invariant, and the data of a step that they read: its waypoint
  type and its intersections.
\<close>

definition depart_ok :: "RouteStep \<Rightarrow> bool" where
  "depart_ok step \<longleftrightarrow>
     length (intersections step) \<ge> 1 \<and>
     length (bearings (front (intersections step))) = 1 \<and>
     length (entry (front (intersections step))) = 1 \<and>
     waypoint_type (maneuver step) = Depart"

definition arrive_ok :: "RouteStep \<Rightarrow> bool" where
  "arrive_ok step \<longleftrightarrow>
     length (intersections step) = 1 \<and>
     length (bearings (front (intersections step))) = 1 \<and>
     length (entry (front (intersections step))) = 1 \<and>
     waypoint_type (maneuver step) = Arrive"

definition ends_data :: "RouteStep \<Rightarrow> WaypointType \<times> Intersection list" where
  "ends_data step = (waypoint_type (maneuver step), intersections step)"

text \<open>
  Conditions on the steps a pass is given.  For \<open>buildIntersections\<close>: every step
  between Depart and Arrive is announced or carries \<open>Suppressed\<close> (no other silent
  step is left).  For \<open>postProcess\<close>: the step after Depart does not stay on a
  roundabout, and the Arrive step neither stays on one nor leaves one.
\<close>

definition announced_or_suppressed :: "Toolkit \<Rightarrow> RouteStep list \<Rightarrow> bool" where
  "announced_or_suppressed tk steps \<longleftrightarrow>
     list_all (\<lambda>i. isSilent tk (instruction (maneuver (steps ! i))) \<longrightarrow>
                  step_type (steps ! i) = Suppressed) [1..<length steps - 1]"

definition roundabout_free_ends :: "Toolkit \<Rightarrow> RouteStep list \<Rightarrow> bool" where
  "roundabout_free_ends tk steps \<longleftrightarrow>
     step_type (steps ! 1) \<noteq> StayOnRoundabout \<and>
     step_type (last steps) \<noteq> StayOnRoundabout \<and>
     \<not> leavesRoundabout tk (instruction (maneuver (last steps)))"

subsection \<open>Resynchronising the leg geometry\<close>

text \<open>
  The fields of \<open>LegGeometry\<close> that post\_processing.cpp touches (leg\_geometry.hpp is
  missing); the type of an annotation is left open.  \<open>std::size_t\<close> has 64 bits:
  \<open>step.geometry_end - 1\<close> wraps around at zero.  \<open>pop_back\<close> drops the last element;
  on an empty vector it is undefined in the source, and the model leaves the list
  empty.
\<close>

record 'a LegGeometry =
  locations :: "Coordinate list"
  segment_offsets :: "nat list"
  segment_distances :: "real list"
  osm_node_ids :: "nat list"
  annotations :: "'a list"

definition size_t_minus :: "nat \<Rightarrow> nat \<Rightarrow> nat" where
  "size_t_minus a b = (a + 2 ^ 64 - b) mod 2 ^ 64"

definition resync_step :: "RouteStep \<Rightarrow> 'a LegGeometry \<Rightarrow> 'a LegGeometry" where
  "resync_step step leg_geometry =
     leg_geometry
       \<lparr>segment_distances := segment_distances leg_geometry @ [distance step],
        segment_offsets := segment_offsets leg_geometry @ [size_t_minus (geometry_end step) 1]\<rparr>"

definition resyncGeometry :: "'a LegGeometry \<Rightarrow> RouteStep list \<Rightarrow> 'a LegGeometry" where
  "resyncGeometry leg_geometry steps =
     (let g1 = leg_geometry\<lparr>segment_offsets := [0], segment_distances := []\<rparr>;
          g2 = fold resync_step steps g1
      in g2\<lparr>segment_offsets := butlast (segment_offsets g2),
            segment_distances := butlast (segment_distances g2)\<rparr>)"

text \<open>
  The steps of a leg chain when the first begins at location 0 and every later step
  begins at the last location of the step before it.
\<close>

definition chained :: "RouteStep list \<Rightarrow> bool" where
  "chained steps \<longleftrightarrow>
     geometry_begin (steps ! 0) = 0 \<and>
     (\<forall>i. i + 1 < length steps \<longrightarrow>
          geometry_begin (steps ! (i + 1)) + 1 = geometry_end (steps ! i))"

section \<open>The router command line (tools/routed.cpp)\<close>

text \<open>
  What \<open>generateServerProgramOptions\<close> sees after
  \<open>boost::program_options\<close> has read the arguments: whether parsing threw, whether
  \<open>--version\<close> or \<open>--help\<close> was given, the value of \<open>--shared-memory\<close> (default
  false) and the positional \<open>base\<close> path, if any.
\<close>

record CommandLine =
  parse_error :: bool
  version_option :: bool
  help_option :: bool
  use_shared_memory :: bool
  base :: "string option"

definition INIT_OK_START_ENGINE :: nat where
  "INIT_OK_START_ENGINE = 0"

definition INIT_OK_DO_NOT_START_ENGINE :: nat where
  "INIT_OK_DO_NOT_START_ENGINE = 1"

text \<open>\<open>const static unsigned INIT_FAILED = -1\<close>: the value wraps to \<open>2^32 - 1\<close>.\<close>

definition INIT_FAILED :: nat where
  "INIT_FAILED = 4294967295"

definition EXIT_SUCCESS :: nat where
  "EXIT_SUCCESS = 0"

definition EXIT_FAILURE :: nat where
  "EXIT_FAILURE = 1"

definition generateServerProgramOptions :: "CommandLine \<Rightarrow> nat" where
  "generateServerProgramOptions cmd =
     (if parse_error cmd then INIT_FAILED
      else if version_option cmd then INIT_OK_DO_NOT_START_ENGINE
      else if help_option cmd then INIT_OK_DO_NOT_START_ENGINE
      else if \<not> use_shared_memory cmd \<and> base cmd \<noteq> None then INIT_OK_START_ENGINE
      else if use_shared_memory cmd \<and> base cmd = None then INIT_OK_START_ENGINE
      else INIT_OK_DO_NOT_START_ENGINE)"

text \<open>
  The start of \<open>main\<close>: the process ends with an exit code, or goes on to check the
  configuration and start the engine (not modelled further).
\<close>

datatype Outcome = Exit nat | StartEngine

definition routed_main :: "CommandLine \<Rightarrow> Outcome" where
  "routed_main cmd =
     (let init_result = generateServerProgramOptions cmd
      in if init_result = INIT_OK_DO_NOT_START_ENGINE then Exit EXIT_SUCCESS
         else if init_result = INIT_FAILED then Exit EXIT_FAILURE
         else StartEngine)"

definition no_arguments :: CommandLine where
  "no_arguments =
     \<lparr>parse_error = False, version_option = False, help_option = False,
      use_shared_memory = False, base = None\<rparr>"

definition base_and_shared_memory :: CommandLine where
  "base_and_shared_memory =
     \<lparr>parse_error = False, version_option = False, help_option = False,
      use_shared_memory = True, base = Some ''map.osrm''\<rparr>"

section \<open>Hints (engine/phantom\_node.hpp, engine/api/base\_api.hpp)\<close>

text \<open>
  The memory image of a \<open>PhantomNode\<close>, field by field in the order of the
  declaration, little-endian.  \<open>static_assert(sizeof(PhantomNode) == 60)\<close> says that
  there is no padding between or after the fields.  A \<open>SegmentID\<close> packs a 31-bit id
  and the enabled bit into 32 bits, as the component does with its id and the tiny flag;
  a coordinate is two 32-bit integers; the segment position has 16 bits and a travel
  mode 8.
\<close>

type_synonym byte = "8 word"

definition u32_bytes :: "32 word \<Rightarrow> byte list" where
  "u32_bytes w = map (\<lambda>i. ucast (drop_bit (8 * i) w)) [0, 1, 2, 3]"

definition u16_bytes :: "16 word \<Rightarrow> byte list" where
  "u16_bytes w = map (\<lambda>i. ucast (drop_bit (8 * i) w)) [0, 1]"

definition SegmentID_bytes :: "SegmentID \<Rightarrow> byte list" where
  "SegmentID_bytes s =
     u32_bytes (word_of_nat (node_id s mod 2 ^ 31 + (if enabled s then 2 ^ 31 else 0)))"

definition Coordinate_bytes :: "Coordinate \<Rightarrow> byte list" where
  "Coordinate_bytes c = u32_bytes (word_of_int (lon c)) @ u32_bytes (word_of_int (lat c))"

definition PhantomNode_bytes :: "PhantomNode \<Rightarrow> byte list" where
  "PhantomNode_bytes p =
     SegmentID_bytes (forward_segment_id p) @
     SegmentID_bytes (reverse_segment_id p) @
     u32_bytes (word_of_nat (phantom_name_id p)) @
     u32_bytes (word_of_int (forward_weight p)) @
     u32_bytes (word_of_int (reverse_weight p)) @
     u32_bytes (word_of_int (forward_offset p)) @
     u32_bytes (word_of_int (reverse_offset p)) @
     u32_bytes (word_of_nat (forward_packed_geometry_id p)) @
     u32_bytes (word_of_nat (reverse_packed_geometry_id p)) @
     u32_bytes (word_of_nat (component_id p mod 2 ^ 31 +
                             (if component_is_tiny p then 2 ^ 31 else 0))) @
     Coordinate_bytes (location p) @
     Coordinate_bytes (input_location p) @
     u16_bytes (word_of_nat (fwd_segment_position p)) @
     [word_of_nat (forward_travel_mode p)] @
     [word_of_nat (backward_travel_mode p)]"

text \<open>
  Modelled from the spec: the declaration of \<open>Hint\<close> (engine/hint.hpp) is missing.
  Section 6: a hint is a PhantomEndpoint plus the facade checksum, serialized and
  base-64 encoded.  \<open>MakeWaypoint\<close> builds it as \<open>Hint{phantom, facade.GetCheckSum()}\<close>,
  and \<open>GetCheckSum\<close> returns \<open>unsigned\<close>, 32 bits.
\<close>

record Hint =
  phantom :: PhantomNode
  data_checksum :: "32 word"

definition Hint_bytes :: "Hint \<Rightarrow> byte list" where
  "Hint_bytes h = PhantomNode_bytes (phantom h) @ u32_bytes (data_checksum h)"

text \<open>
  Modelled from the spec: the base-64 decoder behind \<open>Hint::FromBase64\<close> is missing.
  Four characters of the alphabet \<open>A-Z a-z 0-9 - _\<close> (the URL-safe one the hints of the
  unit tests use; \<open>+\<close> and \<open>/\<close> are read too) give three bytes; \<open>=\<close> pads the last
  group.
\<close>

definition base64_value :: "char \<Rightarrow> nat" where
  "base64_value c =
     (let n = of_char c :: nat
      in if 65 \<le> n \<and> n \<le> 90 then n - 65
         else if 97 \<le> n \<and> n \<le> 122 then n - 71
         else if 48 \<le> n \<and> n \<le> 57 then n + 4
         else if c = CHR ''-'' \<or> c = CHR ''+'' then 62
         else 63)"

fun base64_decode :: "string \<Rightarrow> byte list" where
  "base64_decode (a # b # c # d # rest) =
     (let n = ((base64_value a * 64 + base64_value b) * 64 +
               (if c = CHR ''='' then 0 else base64_value c)) * 64 +
              (if d = CHR ''='' then 0 else base64_value d);
          bytes = [word_of_nat (n div 65536), word_of_nat (n div 256), word_of_nat n]
      in (if c = CHR ''='' then take 1 bytes
          else if d = CHR ''='' then take 2 bytes
          else bytes) @ base64_decode rest)"
| "base64_decode _ = []"

text \<open>The first hint of the unit test of the parameter parser (parameters\_parser.cpp).\<close>

definition test_hint :: string where
  "test_hint =
     ''DAIAgP___38AAAAAAAAAAAIAAAAAAAAAEAAAAOgDAAD0AwAAGwAAAOUacQBQP5sCshpxAB0_mwIAAAEBl-Umfg==''"

definition test_hint_phantom :: PhantomNode where
  "test_hint_phantom =
     \<lparr>forward_segment_id = \<lparr>node_id = 524, enabled = True\<rparr>,
      reverse_segment_id = \<lparr>node_id = 2147483647, enabled = False\<rparr>,
      phantom_name_id = 0, forward_weight = 0, reverse_weight = 2,
      forward_offset = 0, reverse_offset = 16,
      forward_packed_geometry_id = 1000, reverse_packed_geometry_id = 1012,
      component_id = 27, component_is_tiny = False,
      location = \<lparr>lon = 7412453, lat = 43728720\<rparr>,
      input_location = \<lparr>lon = 7412402, lat = 43728669\<rparr>,
      fwd_segment_position = 0, forward_travel_mode = 1, backward_travel_mode = 1\<rparr>"

section \<open>Concrete inputs of the routing claims\<close>

text \<open>
  The scenario "Table 3x3" of the spec: nodes A, B, C in a line with A-B = 5 and
  B-C = 5.  B is the top of the hierarchy, so the contracted graph stores the edge A-B
  at A and the edge C-B at C, both usable in both directions.
\<close>

definition line_graph :: StaticGraph where
  "line_graph =
     \<lparr>node_array = [0, 1, 1, 2],
      edge_array =
        [\<lparr>target = 1, data = \<lparr>edge_distance = 5, forward = True, backward = True,
                                shortcut = False, edge_id = 0\<rparr>\<rparr>,
         \<lparr>target = 1, data = \<lparr>edge_distance = 5, forward = True, backward = True,
                                shortcut = False, edge_id = 1\<rparr>\<rparr>]\<rparr>"

definition line_phantom :: "NodeID \<Rightarrow> PhantomNode" where
  "line_phantom n =
     \<lparr>forward_segment_id = \<lparr>node_id = n, enabled = True\<rparr>,
      reverse_segment_id = \<lparr>node_id = 0, enabled = False\<rparr>,
      phantom_name_id = 0, forward_weight = 0, reverse_weight = 0,
      forward_offset = 0, reverse_offset = 0,
      forward_packed_geometry_id = 0, reverse_packed_geometry_id = 0,
      component_id = 0, component_is_tiny = False,
      location = \<lparr>lon = 0, lat = 0\<rparr>, input_location = \<lparr>lon = 0, lat = 0\<rparr>,
      fwd_segment_position = 0, forward_travel_mode = 0, backward_travel_mode = 0\<rparr>"

definition line_phantoms :: "PhantomNode list" where
  "line_phantoms = [line_phantom 0, line_phantom 1, line_phantom 2]"

definition empty_heap :: QueryHeap where
  "empty_heap = \<lparr>inserted_nodes = (\<lambda>_. None), heap = []\<rparr>"

text \<open>
  A phantom in the middle of a two-way segment (forward node 0, reverse node 1), and a
  graph of two nodes where node 0 has a self-loop of weight 7.
\<close>

definition two_way_phantom :: PhantomNode where
  "two_way_phantom =
     (line_phantom 0)
       \<lparr>reverse_segment_id := \<lparr>node_id = 1, enabled = True\<rparr>,
        forward_weight := 3, forward_offset := 2, reverse_weight := 4, reverse_offset := 2\<rparr>"

definition loop_graph :: StaticGraph where
  "loop_graph =
     \<lparr>node_array = [0, 1, 1],
      edge_array =
        [\<lparr>target = 0, data = \<lparr>edge_distance = 7, forward = True, backward = False,
                                shortcut = True, edge_id = 0\<rparr>\<rparr>]\<rparr>"

text \<open>
  The graph of the unit test \<open>find_test\<close> (unit\_tests/util/static\_graph.cpp): edges
  0 -> 1 (data 1), 3 -> 0 (data 2), 3 -> 0 (data 5), 3 -> 4 (data 3), 4 -> 3 (data 4).
\<close>

definition test_edge :: "NodeID \<Rightarrow> nat \<Rightarrow> EdgeArrayEntry" where
  "test_edge t i =
     \<lparr>target = t, data = \<lparr>edge_distance = 1, forward = True, backward = False,
                            shortcut = False, edge_id = i\<rparr>\<rparr>"

definition find_test_graph :: StaticGraph where
  "find_test_graph =
     \<lparr>node_array = [0, 1, 1, 1, 4, 5],
      edge_array = [test_edge 1 1, test_edge 0 2, test_edge 0 5, test_edge 4 3, test_edge 3 4]\<rparr>"

text \<open>
  A hierarchy on the nodes 0 < 1 < 2 < 3 as a backward sweep sees it.  The road
  network has the edges 1 -> 0 (10), 3 -> 0 (1), 1 -> 3 (2), 2 -> 1 (1) and 2 -> 0 (50);
  contracting node 1 adds the shortcut 2 -> 3 (3).  Every edge is stored at its lower
  end: those into the lower end carry the backward flag, those out of it the forward
  flag.  The target is node 0.
\<close>

definition hierarchy_edge :: "NodeID \<Rightarrow> EdgeWeight \<Rightarrow> bool \<Rightarrow> bool \<Rightarrow> EdgeArrayEntry" where
  "hierarchy_edge t w f s =
     \<lparr>target = t, data = \<lparr>edge_distance = w, forward = f, backward = \<not> f,
                            shortcut = s, edge_id = 0\<rparr>\<rparr>"

definition stall_graph :: StaticGraph where
  "stall_graph =
     \<lparr>node_array = [0, 3, 5, 6, 6],
      edge_array =
        [hierarchy_edge 1 10 False False, hierarchy_edge 2 50 False False,
         hierarchy_edge 3 1 False False,
         hierarchy_edge 2 1 False False, hierarchy_edge 3 2 True False,
         hierarchy_edge 3 3 True True]\<rparr>"

section \<open>Concrete inputs of the guidance claims\<close>

text \<open>
  An instance of the helpers that the missing headers declare: a name change is
  announced when the name or the reference differs; the roundabout classes follow the
  names of the turn types; only \<open>NoTurn\<close>, \<open>Suppressed\<close> and \<open>StayOnRoundabout\<close> are
  silent; the empty name has id 0.
\<close>

definition reference_getTurnDirection :: "real \<Rightarrow> DirectionModifier" where
  "reference_getTurnDirection angle =
     (if angle > 0 \<and> angle < 60 then SharpRight
      else if angle \<ge> 60 \<and> angle < 140 then Right
      else if angle \<ge> 140 \<and> angle < 170 then SlightRight
      else if angle \<ge> 165 \<and> angle \<le> 195 then Straight
      else if angle > 190 \<and> angle \<le> 220 then SlightLeft
      else if angle > 220 \<and> angle \<le> 300 then Left
      else if angle > 300 \<and> angle < 360 then SharpLeft
      else UTurn)"

definition reference_mirror :: "DirectionModifier \<Rightarrow> DirectionModifier" where
  "reference_mirror m =
     (case m of UTurn \<Rightarrow> UTurn | SharpRight \<Rightarrow> SharpLeft | Right \<Rightarrow> Left
      | SlightRight \<Rightarrow> SlightLeft | Straight \<Rightarrow> Straight | SlightLeft \<Rightarrow> SlightRight
      | Left \<Rightarrow> Right | SharpLeft \<Rightarrow> SharpRight)"

definition reference_toolkit :: Toolkit where
  "reference_toolkit =
     \<lparr>requiresNameAnnounced =
        (\<lambda>from_name from_ref to_name to_ref. from_name \<noteq> to_name \<or> from_ref \<noteq> to_ref),
      entersRoundabout =
        (\<lambda>i. turn_type i \<in> set [EnterRoundabout, EnterRotary, EnterRoundaboutIntersection,
               EnterRoundaboutAtExit, EnterRotaryAtExit, EnterRoundaboutIntersectionAtExit,
               EnterAndExitRoundabout, EnterAndExitRotary, EnterAndExitRoundaboutIntersection]),
      leavesRoundabout =
        (\<lambda>i. turn_type i \<in> set [ExitRoundabout, ExitRotary, ExitRoundaboutIntersection,
               EnterAndExitRoundabout, EnterAndExitRotary, EnterAndExitRoundaboutIntersection]),
      isSilent = (\<lambda>i. turn_type i \<in> set [NoTurn, Suppressed, StayOnRoundabout]),
      getTurnDirection = reference_getTurnDirection,
      angularDeviation = (\<lambda>angle angle2. min (360 - \<bar>angle - angle2\<bar>) \<bar>angle - angle2\<bar>),
      reverseBearing = (\<lambda>bearing. if bearing \<ge> 180 then bearing - 180 else bearing + 180),
      mirrorDirectionModifier = reference_mirror,
      EMPTY_NAMEID = 0\<rparr>"

text \<open>
  Steps as the assembly builds them: step \<open>k\<close> of a leg covers the locations
  \<open>k, k + 1\<close> (\<open>geometry_begin = k\<close>, \<open>geometry_end = k + 2\<close>), the arrive step the
  last location alone; every step has one intersection.
\<close>

definition crossing :: "int list \<Rightarrow> bool list \<Rightarrow> nat \<Rightarrow> nat \<Rightarrow> Intersection" where
  "crossing bs es i out =
     \<lparr>intersection_location = \<lparr>lon = 0, lat = 0\<rparr>, bearings = bs, entry = es,
      intersection_in = i, intersection_out = out,
      lanes = LaneTupel_default, lane_description = []\<rparr>"

definition turn_step ::
  "nat \<Rightarrow> string \<Rightarrow> TurnType \<Rightarrow> DirectionModifier \<Rightarrow> real \<Rightarrow> nat \<Rightarrow> Intersection \<Rightarrow> RouteStep" where
  "turn_step n nm t m d k i =
     \<lparr>name_id = n, name = nm, ref = [], pronunciation = [], destinations = [],
      rotary_name = [], rotary_pronunciation = [], duration = d / 10, distance = d,
      mode = 1,
      maneuver =
        \<lparr>maneuver_location = \<lparr>lon = 0, lat = 0\<rparr>, bearing_before = 0, bearing_after = 0,
         instruction = \<lparr>turn_type = t, direction_modifier = m\<rparr>,
         waypoint_type = WaypointNone, exit = 0\<rparr>,
      geometry_begin = k, geometry_end = k + 2, intersections = [i]\<rparr>"

definition depart_step :: "nat \<Rightarrow> string \<Rightarrow> real \<Rightarrow> RouteStep" where
  "depart_step n nm d =
     (turn_step n nm NoTurn UTurn d 0 (crossing [90] [True] NO_INDEX 0))
       \<lparr>maneuver :=
          \<lparr>maneuver_location = \<lparr>lon = 0, lat = 0\<rparr>, bearing_before = 0, bearing_after = 90,
           instruction = NO_TURN, waypoint_type = Depart, exit = 0\<rparr>\<rparr>"

definition arrive_step :: "nat \<Rightarrow> string \<Rightarrow> nat \<Rightarrow> RouteStep" where
  "arrive_step n nm k =
     (turn_step n nm NoTurn UTurn 0 k (crossing [270] [True] 0 NO_INDEX))
       \<lparr>maneuver :=
          \<lparr>maneuver_location = \<lparr>lon = 0, lat = 0\<rparr>, bearing_before = 90, bearing_after = 0,
           instruction = NO_TURN, waypoint_type = Arrive, exit = 0\<rparr>,
        geometry_end := k + 1\<rparr>"

text \<open>
  A leg of six steps: depart on Alpha; a right turn onto Bravo (200 m); a continue
  straight onto Charlie (50 m); a use-lane step on Delta (10 m) at a crossing that
  offers two roads; a left turn onto Echo (200 m) at a crossing that offers one road;
  arrive.
\<close>

definition lane_leg :: "RouteStep list" where
  "lane_leg =
     [depart_step 1 ''Alpha'' 100,
      turn_step 2 ''Bravo'' Turn Right 200 1
        (crossing [0, 90, 180, 270] [True, True, True, False] 3 2),
      turn_step 3 ''Charlie'' Continue Straight 50 2
        (crossing [0, 90, 180, 270] [False, True, True, True] 0 2),
      turn_step 4 ''Delta'' UseLane Straight 10 3
        (crossing [0, 90, 180] [False, True, True] 0 2),
      turn_step 5 ''Echo'' Turn Left 200 4
        (crossing [0, 90, 270] [False, True, False] 0 1),
      arrive_step 5 ''Echo'' 5]"

text \<open>
  A leg of depart and arrive whose arrive step carries a use-lane instruction for the
  only lane of its road, a lane that is not tagged straight or none.
\<close>

definition lane_arrive_leg :: "RouteStep list" where
  "lane_arrive_leg =
     [depart_step 1 ''Alpha'' 100,
      (arrive_step 1 ''Alpha'' 1)
        \<lparr>maneuver :=
           \<lparr>maneuver_location = \<lparr>lon = 0, lat = 0\<rparr>, bearing_before = 90, bearing_after = 0,
            instruction = \<lparr>turn_type = UseLane, direction_modifier = Straight\<rparr>,
            waypoint_type = Arrive, exit = 0\<rparr>,
         intersections :=
           [(crossing [270] [True] 0 NO_INDEX)
              \<lparr>lanes := \<lparr>lanes_in_turn = 1, first_lane_from_the_right = 0\<rparr>,
               lane_description := [4]\<rparr>]\<rparr>]"

text \<open>
  A leg of four steps: depart on Alpha; a use-lane step for the only lane of Bravo;
  a suppressed step onto Charlie; arrive.
\<close>

definition use_lane_leg :: "RouteStep list" where
  "use_lane_leg =
     [depart_step 1 ''Alpha'' 100,
      turn_step 2 ''Bravo'' UseLane Straight 50 1
        ((crossing [0, 90, 180] [False, True, True] 0 2)
           \<lparr>lanes := \<lparr>lanes_in_turn = 1, first_lane_from_the_right = 0\<rparr>,
            lane_description := [4]\<rparr>),
      turn_step 3 ''Charlie'' Suppressed Straight 70 2
        (crossing [0, 90, 270] [False, True, False] 0 1),
      arrive_step 3 ''Charlie'' 3]"

text \<open>A leg of depart and arrive alone, over two locations, and a leg geometry.\<close>

definition two_step_leg :: "RouteStep list" where
  "two_step_leg = [depart_step 1 ''Alpha'' 100, arrive_step 1 ''Alpha'' 1]"

definition some_geometry :: "nat LegGeometry" where
  "some_geometry =
     \<lparr>locations = [\<lparr>lon = 0, lat = 0\<rparr>, \<lparr>lon = 1000, lat = 0\<rparr>],
      segment_offsets = [0, 1], segment_distances = [100],
      osm_node_ids = [1, 2], annotations = [0]\<rparr>"

section \<open>Properties of the many-to-many sweeps\<close>

lemma adjacent_edge_valid:
  assumes "valid_graph g" "node < GetNumberOfNodes g" "e \<in> set (GetAdjacentEdgeRange g node)"
  shows "e < length (edge_array g) \<and> GetTarget g e < GetNumberOfNodes g"
proof -
  from assms(1) have ne: "node_array g \<noteq> []" and so: "sorted (node_array g)"
    and la: "last (node_array g) = length (edge_array g)"
    and ta: "list_all (\<lambda>e. target e < GetNumberOfNodes g) (edge_array g)"
    by (simp_all add: valid_graph_def)
  from assms(2) have i: "node + 1 < length (node_array g)"
    by (simp add: GetNumberOfNodes_def)
  from assms(3) have "e < node_array g ! (node + 1)"
    by (simp add: GetAdjacentEdgeRange_def BeginEdges_def EndEdges_def)
  also have "node_array g ! (node + 1) \<le> node_array g ! (length (node_array g) - 1)"
    using so i by (intro sorted_nth_mono) auto
  also have "\<dots> = last (node_array g)"
    using ne by (simp add: last_conv_nth)
  finally have e: "e < length (edge_array g)" using la by simp
  with ta have "target (edge_array g ! e) < GetNumberOfNodes g"
    by (simp add: list_all_length)
  with e show ?thesis by (simp add: GetTarget_def)
qed

lemma unseen_Insert:
  assumes "to < N" "\<not> WasInserted h to"
  shows "Suc (unseen N (Insert to w p h)) = unseen N h"
proof -
  have fin: "finite {n. n < N \<and> \<not> WasInserted h n}" by simp
  have mem: "to \<in> {n. n < N \<and> \<not> WasInserted h n}" using assms by simp
  have "{n. n < N \<and> \<not> WasInserted (Insert to w p h) n} = {n. n < N \<and> \<not> WasInserted h n} - {to}"
    by (auto simp: WasInserted_def Insert_def)
  then have "unseen N (Insert to w p h) = card ({n. n < N \<and> \<not> WasInserted h n} - {to})"
    by (simp add: unseen_def)
  also have "\<dots> = card {n. n < N \<and> \<not> WasInserted h n} - 1"
    using fin mem by (simp add: card_Diff_singleton)
  finally have e: "unseen N (Insert to w p h) = unseen N h - 1"
    by (simp add: unseen_def)
  from fin mem have "0 < unseen N h"
    unfolding unseen_def card_gt_0_iff by blast
  with e show ?thesis by simp
qed

lemma WasInserted_DecreaseKey [simp]: "WasInserted (DecreaseKey n w h) x = WasInserted h x"
  by (simp add: WasInserted_def DecreaseKey_def split: option.splits)

lemma WasInserted_SetParent [simp]: "WasInserted (SetParent n p h) x = WasInserted h x"
  by (simp add: WasInserted_def SetParent_def split: option.splits)

lemma heap_DecreaseKey [simp]: "heap (DecreaseKey n w h) = heap h"
  by (simp add: DecreaseKey_def split: option.splits)

lemma heap_SetParent [simp]: "heap (SetParent n p h) = heap h"
  by (simp add: SetParent_def split: option.splits)

lemma WasInserted_Insert [simp]: "WasInserted (Insert n w p h) x \<longleftrightarrow> x = n \<or> WasInserted h x"
  by (simp add: WasInserted_def Insert_def)

lemma heap_Insert [simp]: "heap (Insert n w p h) = heap h @ [n]"
  by (simp add: Insert_def)

lemma relax_edge_inv:
  assumes "GetTarget g e < N" "heap_inv N h"
  shows "heap_inv N (relax_edge fd g node d e h) \<and>
         heap_measure N (relax_edge fd g node d e h) \<le> heap_measure N h \<and>
         (\<forall>x. WasInserted h x \<longrightarrow> WasInserted (relax_edge fd g node d e h) x)"
proof -
  let ?to = "GetTarget g e"
  let ?w = "d + edge_distance (GetEdgeData g e)"
  have u: "unseen N (DecreaseKey a b (SetParent a c h)) = unseen N h" for a b c
    by (simp add: unseen_def)
  consider (ins) "relax_edge fd g node d e h = Insert ?to ?w node h" "\<not> WasInserted h ?to"
    | (dec) "relax_edge fd g node d e h = DecreaseKey ?to ?w (SetParent ?to node h)"
    | (same) "relax_edge fd g node d e h = h"
    by (cases "if fd then forward (GetEdgeData g e) else backward (GetEdgeData g e)";
        cases "WasInserted h ?to"; cases "?w < GetKey h ?to")
       (simp_all add: relax_edge_def Let_def)
  then show ?thesis
  proof cases
    case ins
    from unseen_Insert [OF assms(1) ins(2), of ?w node]
    have "unseen N h = Suc (unseen N (Insert ?to ?w node h))" by simp
    with ins assms show ?thesis
      by (auto simp: heap_inv_def heap_measure_def)
  next
    case dec
    with assms show ?thesis
      by (simp add: heap_inv_def heap_measure_def u)
  next
    case same
    show ?thesis unfolding same using assms by simp
  qed
qed

lemma fold_relax_inv:
  assumes "\<forall>e\<in>set es. GetTarget g e < N" "heap_inv N h"
  shows "heap_inv N (fold (relax_edge fd g node d) es h) \<and>
         heap_measure N (fold (relax_edge fd g node d) es h) \<le> heap_measure N h \<and>
         (\<forall>x. WasInserted h x \<longrightarrow> WasInserted (fold (relax_edge fd g node d) es h) x)"
  using assms
proof (induction es arbitrary: h)
  case Nil
  then show ?case by simp
next
  case (Cons e es)
  from Cons.prems have t: "GetTarget g e < N" by simp
  note r = relax_edge_inv [OF t Cons.prems(2), where fd = fd and node = node and d = d]
  from Cons.prems have es: "\<forall>e\<in>set es. GetTarget g e < N" by simp
  let ?h = "relax_edge fd g node d e h"
  from r have r1: "heap_inv N ?h" and r2: "heap_measure N ?h \<le> heap_measure N h"
    and r3: "\<And>x. WasInserted h x \<Longrightarrow> WasInserted ?h x" by blast+
  from Cons.IH [OF es r1]
  have i1: "heap_inv N (fold (relax_edge fd g node d) es ?h)"
    and i2: "heap_measure N (fold (relax_edge fd g node d) es ?h) \<le> heap_measure N ?h"
    and i3: "\<And>x. WasInserted ?h x \<Longrightarrow> WasInserted (fold (relax_edge fd g node d) es ?h) x"
    by blast+
  from i2 r2 have "heap_measure N (fold (relax_edge fd g node d) es ?h) \<le> heap_measure N h"
    by (rule le_trans)
  with i1 i3 r3 show ?case by simp
qed

lemma RelaxOutgoingEdges_inv:
  assumes "valid_graph g" "node < GetNumberOfNodes g" "heap_inv (GetNumberOfNodes g) h"
  shows "heap_inv (GetNumberOfNodes g) (RelaxOutgoingEdges fd g node d h) \<and>
         heap_measure (GetNumberOfNodes g) (RelaxOutgoingEdges fd g node d h)
           \<le> heap_measure (GetNumberOfNodes g) h \<and>
         (\<forall>x. WasInserted h x \<longrightarrow> WasInserted (RelaxOutgoingEdges fd g node d h) x)"
  unfolding RelaxOutgoingEdges_def
  by (rule fold_relax_inv) (use assms adjacent_edge_valid in blast)+

lemma min_node_mem: "min_node h best ns \<in> insert best (set ns)"
  by (induction ns arbitrary: best) auto

lemma MinNode_mem: "heap h \<noteq> [] \<Longrightarrow> MinNode h \<in> set (heap h)"
  using min_node_mem by (fastforce simp: MinNode_def split: list.splits)

lemma DeleteMin_inv:
  assumes "heap h \<noteq> []" "heap_inv N h"
  shows "fst (DeleteMin h) \<in> set (heap h) \<and> fst (DeleteMin h) < N \<and>
         heap_inv N (snd (DeleteMin h)) \<and>
         Suc (heap_measure N (snd (DeleteMin h))) = heap_measure N h \<and>
         inserted_nodes (snd (DeleteMin h)) = inserted_nodes h"
proof -
  from MinNode_mem [OF assms(1)] have m: "MinNode h \<in> set (heap h)" .
  then have l: "Suc (length (remove1 (MinNode h) (heap h))) = length (heap h)"
    by (simp add: length_remove1) (metis length_pos_if_in_set Suc_pred)
  have w: "WasInserted (h\<lparr>heap := xs\<rparr>) = WasInserted h" for xs
    by (simp add: WasInserted_def fun_eq_iff)
  have s: "set (remove1 (MinNode h) (heap h)) \<subseteq> set (heap h)"
    by (rule set_remove1_subset)
  from assms(2) s have i: "heap_inv N (h\<lparr>heap := remove1 (MinNode h) (heap h)\<rparr>)"
    by (auto simp: heap_inv_def w)
  from m assms(2) have n: "MinNode h < N" by (simp add: heap_inv_def)
  from m l i n show ?thesis
    by (simp add: DeleteMin_def heap_measure_def unseen_def w)
qed

lemma search_step_heap:
  fixes fd :: bool
  assumes g: "valid_graph g" and ne: "heap h \<noteq> []" and inv: "heap_inv (GetNumberOfNodes g) h"
  defines "node \<equiv> fst (DeleteMin h)" and "h1 \<equiv> snd (DeleteMin h)"
  defines "h2 \<equiv> (if StallAtNode fd g node (GetKey h1 node) h1 then h1
                    else RelaxOutgoingEdges fd g node (GetKey h1 node) h1)"
  shows "heap_inv (GetNumberOfNodes g) h2 \<and>
         heap_measure (GetNumberOfNodes g) h2 < heap_measure (GetNumberOfNodes g) h \<and>
         (\<forall>x. WasInserted h x \<longrightarrow> WasInserted h2 x) \<and> WasInserted h2 node"
proof -
  let ?N = "GetNumberOfNodes g"
  from DeleteMin_inv [OF ne inv]
  have n: "node < ?N" and m: "node \<in> set (heap h)" and i1: "heap_inv ?N h1"
    and m1: "Suc (heap_measure ?N h1) = heap_measure ?N h"
    and ins: "inserted_nodes h1 = inserted_nodes h"
    by (simp_all add: node_def h1_def)
  from ins have w: "WasInserted h1 = WasInserted h"
    by (simp add: WasInserted_def fun_eq_iff)
  from m inv have wn: "WasInserted h node" by (simp add: heap_inv_def)
  show ?thesis
  proof (cases "StallAtNode fd g node (GetKey h1 node) h1")
    case True
    then have "h2 = h1" by (simp add: h2_def)
    with i1 m1 w wn show ?thesis by simp
  next
    case False
    then have h2: "h2 = RelaxOutgoingEdges fd g node (GetKey h1 node) h1" by (simp add: h2_def)
    from RelaxOutgoingEdges_inv [OF g n i1, of fd "GetKey h1 node"]
    have a: "heap_inv ?N h2" and b: "heap_measure ?N h2 \<le> heap_measure ?N h1"
      and c: "\<And>x. WasInserted h1 x \<Longrightarrow> WasInserted h2 x"
      unfolding h2 by blast+
    from b m1 have "heap_measure ?N h2 < heap_measure ?N h" by simp
    with a c w wn show ?thesis by simp
  qed
qed

lemma fst_BackwardRoutingStep:
  "fst (BackwardRoutingStep g c st) =
     (if StallAtNode False g (fst (DeleteMin (fst st)))
           (GetKey (snd (DeleteMin (fst st))) (fst (DeleteMin (fst st)))) (snd (DeleteMin (fst st)))
      then snd (DeleteMin (fst st))
      else RelaxOutgoingEdges False g (fst (DeleteMin (fst st)))
             (GetKey (snd (DeleteMin (fst st))) (fst (DeleteMin (fst st)))) (snd (DeleteMin (fst st))))"
  by (simp add: BackwardRoutingStep_def Let_def split_beta)

lemma snd_BackwardRoutingStep:
  "snd (BackwardRoutingStep g c st) =
     (snd st)(fst (DeleteMin (fst st)) \<mapsto>
        (case snd st (fst (DeleteMin (fst st))) of None \<Rightarrow> [] | Some bucket_list \<Rightarrow> bucket_list) @
        [\<lparr>target_id = c,
          bucket_distance = GetKey (snd (DeleteMin (fst st))) (fst (DeleteMin (fst st)))\<rparr>])"
  by (simp add: BackwardRoutingStep_def Let_def split_beta)

lemma fst_ForwardRoutingStep:
  "fst (ForwardRoutingStep g r M B st) =
     (if StallAtNode True g (fst (DeleteMin (fst st)))
           (GetKey (snd (DeleteMin (fst st))) (fst (DeleteMin (fst st)))) (snd (DeleteMin (fst st)))
      then snd (DeleteMin (fst st))
      else RelaxOutgoingEdges True g (fst (DeleteMin (fst st)))
             (GetKey (snd (DeleteMin (fst st))) (fst (DeleteMin (fst st)))) (snd (DeleteMin (fst st))))"
  by (simp add: ForwardRoutingStep_def Let_def split_beta)

lemma snd_ForwardRoutingStep:
  "snd (ForwardRoutingStep g r M B st) =
     (case B (fst (DeleteMin (fst st))) of
        None \<Rightarrow> snd st
      | Some bucket_list \<Rightarrow>
          fold (forward_bucket g r M (fst (DeleteMin (fst st)))
                  (GetKey (snd (DeleteMin (fst st))) (fst (DeleteMin (fst st)))))
               bucket_list (snd st))"
  by (simp add: ForwardRoutingStep_def Let_def split_beta)

lemma buckets_below_step:
  assumes "buckets_below (Suc c) (snd st)"
  shows "buckets_below (Suc c) (snd (BackwardRoutingStep g c st))"
proof -
  let ?node = "fst (DeleteMin (fst st))"
  have "\<forall>b\<in>set (case snd st ?node of None \<Rightarrow> [] | Some bucket_list \<Rightarrow> bucket_list).
          target_id b < Suc c"
    using assms by (cases "snd st ?node") (auto simp: buckets_below_def)
  with assms show ?thesis
    by (auto simp: buckets_below_def snd_BackwardRoutingStep split: if_splits)
qed

lemma buckets_below_mono: "buckets_below c B \<Longrightarrow> c \<le> d \<Longrightarrow> buckets_below d B"
  by (fastforce simp: buckets_below_def)

lemma explore_backward_terminates:
  assumes g: "valid_graph g"
  shows "heap_inv (GetNumberOfNodes g) (fst st) \<Longrightarrow>
         \<exists>res. explore_backward g c st = Some res \<and>
               (buckets_below (Suc c) (snd st) \<longrightarrow> buckets_below (Suc c) (snd res))"
proof (induction "heap_measure (GetNumberOfNodes g) (fst st)" arbitrary: st rule: less_induct)
  case less
  show ?case
  proof (cases "Empty (fst st)")
    case True
    then show ?thesis by (subst explore_backward.simps) simp
  next
    case False
    then have ne: "heap (fst st) \<noteq> []" by (simp add: Empty_def)
    from search_step_heap [OF g ne less.prems(1), of False]
    have a: "heap_inv (GetNumberOfNodes g) (fst (BackwardRoutingStep g c st))"
      and b: "heap_measure (GetNumberOfNodes g) (fst (BackwardRoutingStep g c st))
                < heap_measure (GetNumberOfNodes g) (fst st)"
      by (simp_all add: fst_BackwardRoutingStep)
    from less.hyps [OF b a]
    obtain res where "explore_backward g c (BackwardRoutingStep g c st) = Some res"
      and "buckets_below (Suc c) (snd (BackwardRoutingStep g c st)) \<longrightarrow>
           buckets_below (Suc c) (snd res)" by blast
    with False buckets_below_step [of c st g] show ?thesis
      by (subst explore_backward.simps) auto
  qed
qed

lemma forward_bucket_table:
  "length (forward_bucket g r M node d b t) = length t \<and>
   (\<forall>i. i \<noteq> r * M + target_id b \<longrightarrow> forward_bucket g r M node d b t ! i = t ! i)"
  by (simp add: forward_bucket_def Let_def)

lemma fold_forward_bucket_table:
  "length (fold (forward_bucket g r M node d) bl t) = length t \<and>
   (\<forall>i. fold (forward_bucket g r M node d) bl t ! i \<noteq> t ! i \<longrightarrow>
        (\<exists>b\<in>set bl. i = r * M + target_id b))"
proof (induction bl arbitrary: t)
  case Nil
  show ?case by simp
next
  case (Cons b bl)
  let ?t = "forward_bucket g r M node d b t"
  note fb = forward_bucket_table [of g r M node d b t]
  note ih = Cons.IH [of ?t]
  show ?case
  proof (intro conjI allI impI)
    show "length (fold (forward_bucket g r M node d) (b # bl) t) = length t"
      using fb ih by simp
  next
    fix i
    assume ch: "fold (forward_bucket g r M node d) (b # bl) t ! i \<noteq> t ! i"
    show "\<exists>b\<in>set (b # bl). i = r * M + target_id b"
    proof (cases "fold (forward_bucket g r M node d) bl ?t ! i = ?t ! i")
      case True
      with ch have "?t ! i \<noteq> t ! i" by simp
      with fb have "i = r * M + target_id b" by blast
      then show ?thesis by simp
    next
      case False
      with ih have "\<exists>b\<in>set bl. i = r * M + target_id b" by blast
      then show ?thesis by auto
    qed
  qed
qed

lemma ForwardRoutingStep_table:
  "length (snd (ForwardRoutingStep g r M B st)) = length (snd st) \<and>
   (\<forall>i. snd (ForwardRoutingStep g r M B st) ! i \<noteq> snd st ! i \<longrightarrow>
        (\<exists>bl b. B (fst (DeleteMin (fst st))) = Some bl \<and> b \<in> set bl \<and>
                i = r * M + target_id b))"
proof (cases "B (fst (DeleteMin (fst st)))")
  case None
  then show ?thesis by (simp add: snd_ForwardRoutingStep)
next
  case (Some bl)
  with fold_forward_bucket_table [of g r M _ _ bl "snd st"]
  show ?thesis by (simp add: snd_ForwardRoutingStep) blast
qed

lemma explore_forward_terminates:
  assumes g: "valid_graph g"
  shows "heap_inv (GetNumberOfNodes g) (fst st) \<Longrightarrow>
         \<exists>res. explore_forward g r M B st = Some res \<and> sweep_post r M B st res \<and>
               (\<forall>r' M' t'. \<exists>res'. explore_forward g r' M' B (fst st, t') = Some res' \<and>
                     fst res' = fst res)"
proof (induction "heap_measure (GetNumberOfNodes g) (fst st)" arbitrary: st rule: less_induct)
  case less
  show ?case
  proof (cases "Empty (fst st)")
    case True
    have "explore_forward g r M B st = Some st"
      using True by (subst explore_forward.simps) simp
    moreover have "sweep_post r M B st st" by (simp add: sweep_post_def)
    moreover have "explore_forward g r' M' B (fst st, t') = Some (fst st, t')" for r' M' t'
      using True by (subst explore_forward.simps) simp
    ultimately show ?thesis by simp
  next
    case False
    then have ne: "heap (fst st) \<noteq> []" by (simp add: Empty_def)
    let ?st = "ForwardRoutingStep g r M B st"
    let ?node = "fst (DeleteMin (fst st))"
    from search_step_heap [OF g ne less.prems(1), of True]
    have a: "heap_inv (GetNumberOfNodes g) (fst ?st)"
      and b: "heap_measure (GetNumberOfNodes g) (fst ?st) < heap_measure (GetNumberOfNodes g) (fst st)"
      and c: "\<And>x. WasInserted (fst st) x \<Longrightarrow> WasInserted (fst ?st) x"
      and d: "WasInserted (fst ?st) ?node"
      by (simp_all add: fst_ForwardRoutingStep)
    from less.hyps [OF b a]
    obtain res where res: "explore_forward g r M B ?st = Some res"
      and post: "sweep_post r M B ?st res"
      and ind: "\<And>r' M' t'. \<exists>res'. explore_forward g r' M' B (fst ?st, t') = Some res' \<and>
                     fst res' = fst res" by blast
    have e: "explore_forward g r M B st = Some res"
      using False res by (subst explore_forward.simps) simp
    note tb = ForwardRoutingStep_table [of g r M B st]
    have p: "sweep_post r M B st res"
      unfolding sweep_post_def
    proof (intro conjI allI impI)
      show "length (snd res) = length (snd st)"
        using post tb by (simp add: sweep_post_def)
      show "WasInserted (fst res) x" if "WasInserted (fst st) x" for x
        using post c [OF that] by (simp add: sweep_post_def)
      show "\<exists>n bl b. WasInserted (fst res) n \<and> B n = Some bl \<and> b \<in> set bl \<and>
                  i = r * M + target_id b" if ch: "snd res ! i \<noteq> snd st ! i" for i
      proof (cases "snd res ! i = snd ?st ! i")
        case True
        with ch have "snd ?st ! i \<noteq> snd st ! i" by simp
        with tb obtain bl b where "B ?node = Some bl" "b \<in> set bl" "i = r * M + target_id b"
          by blast
        moreover from post d have "WasInserted (fst res) ?node" by (simp add: sweep_post_def)
        ultimately show ?thesis by blast
      next
        case False
        with post show ?thesis unfolding sweep_post_def by blast
      qed
    qed
    have i: "\<exists>res'. explore_forward g r' M' B (fst st, t') = Some res' \<and> fst res' = fst res"
      for r' M' t'
    proof -
      have f: "fst (ForwardRoutingStep g r' M' B (fst st, t')) = fst ?st"
        by (simp add: fst_ForwardRoutingStep)
      from ind [of r' M' "snd (ForwardRoutingStep g r' M' B (fst st, t'))"]
      obtain res' where "explore_forward g r' M' B (ForwardRoutingStep g r' M' B (fst st, t')) = Some res'"
        and "fst res' = fst res" using f by (metis prod.collapse)
      with False show ?thesis by (subst explore_forward.simps) simp
    qed
    from e p i show ?thesis by blast
  qed
qed

lemma heap_inv_Clear: "heap_inv N (Clear h)"
  by (simp add: heap_inv_def Clear_def)

lemma heap_inv_Insert: "heap_inv N h \<Longrightarrow> n < N \<Longrightarrow> heap_inv N (Insert n w p h)"
  by (auto simp: heap_inv_def)

lemma heap_inv_seed_target: "valid_phantom g p \<Longrightarrow> heap_inv (GetNumberOfNodes g) (seed_target p h)"
  by (simp add: seed_target_def Let_def valid_phantom_def heap_inv_Clear heap_inv_Insert)

lemma heap_inv_seed_source: "valid_phantom g p \<Longrightarrow> heap_inv (GetNumberOfNodes g) (seed_source p h)"
  by (simp add: seed_source_def Let_def valid_phantom_def heap_inv_Clear heap_inv_Insert)

lemma seed_source_heap: "seed_source p h = seed_source p h'"
  by (simp add: seed_source_def Clear_def)

lemma backward_sweeps:
  assumes g: "valid_graph g"
  shows "\<forall>p\<in>set ps. valid_phantom g p \<Longrightarrow> buckets_below c B \<Longrightarrow>
         \<exists>h' B'. for_each (search_target_phantom g) ps (c, h, B) = Some (c + length ps, h', B') \<and>
                buckets_below (c + length ps) B'"
proof (induction ps arbitrary: c h B)
  case Nil
  then show ?case by simp
next
  case (Cons p ps)
  from Cons.prems(1) have vp: "valid_phantom g p" and vs: "\<forall>p\<in>set ps. valid_phantom g p"
    by simp_all
  from Cons.prems(2) have bb: "buckets_below (Suc c) B" by (rule buckets_below_mono) simp
  from explore_backward_terminates [OF g, of "(seed_target p h, B)" c] heap_inv_seed_target [OF vp] bb
  obtain h1 B1 where e: "explore_backward g c (seed_target p h, B) = Some (h1, B1)"
    and b1: "buckets_below (Suc c) B1" by fastforce
  from Cons.IH [OF vs b1, of h1]
  obtain h' B' where "for_each (search_target_phantom g) ps (Suc c, h1, B1) = Some (Suc c + length ps, h', B')"
    and "buckets_below (Suc c + length ps) B'" by blast
  moreover from e have "search_target_phantom g p (c, h, B) = Some (Suc c, h1, B1)"
    by (simp add: search_target_phantom_def)
  ultimately show ?case by simp
qed

lemma forward_sweeps:
  assumes g: "valid_graph g"
  shows "\<forall>p\<in>set ps. valid_phantom g p \<Longrightarrow>
         \<exists>h' t'. for_each (search_source_phantom g M B) ps (r0, h, t) = Some (r0 + length ps, h', t') \<and>
                length t' = length t \<and>
                (\<forall>i. t' ! i \<noteq> t ! i \<longrightarrow>
                   (\<exists>k c. k < length ps \<and> reached g B (ps ! k) c \<and> i = (r0 + k) * M + c))"
proof (induction ps arbitrary: r0 h t)
  case Nil
  then show ?case by simp
next
  case (Cons p ps)
  from Cons.prems(1) have vp: "valid_phantom g p" and vs: "\<forall>p\<in>set ps. valid_phantom g p"
    by simp_all
  let ?e = "\<lparr>inserted_nodes = (\<lambda>_. None), heap = []\<rparr>"
  from explore_forward_terminates [OF g, of "(seed_source p h, t)" r0 M B] heap_inv_seed_source [OF vp]
  obtain res where e: "explore_forward g r0 M B (seed_source p h, t) = Some res"
    and post: "sweep_post r0 M B (seed_source p h, t) res"
    and ind: "\<And>r' M' t'. \<exists>res'. explore_forward g r' M' B (seed_source p h, t') = Some res' \<and>
                 fst res' = fst res" by fastforce
  from ind [of 0 0 "[]"] obtain res0
    where r0: "explore_forward g 0 0 B (seed_source p ?e, []) = Some res0" and f0: "fst res0 = fst res"
    using seed_source_heap [of p h ?e] by auto
  have first: "\<exists>c. reached g B p c \<and> i = r0 * M + c" if "snd res ! i \<noteq> t ! i" for i
  proof -
    from post that obtain n bl b where "WasInserted (fst res) n" "B n = Some bl" "b \<in> set bl"
      "i = r0 * M + target_id b" unfolding sweep_post_def by auto
    with r0 f0 have "reached g B p (target_id b)" unfolding reached_def by auto
    with \<open>i = r0 * M + target_id b\<close> show ?thesis by blast
  qed
  from post have len: "length (snd res) = length t" by (simp add: sweep_post_def)
  from Cons.IH [OF vs, of "Suc r0" "fst res" "snd res"]
  obtain h' t' where fe: "for_each (search_source_phantom g M B) ps (Suc r0, fst res, snd res) =
        Some (Suc r0 + length ps, h', t')"
    and l': "length t' = length (snd res)"
    and ch: "\<And>i. t' ! i \<noteq> snd res ! i \<Longrightarrow>
              \<exists>k c. k < length ps \<and> reached g B (ps ! k) c \<and> i = (Suc r0 + k) * M + c"
    by blast
  have "search_source_phantom g M B p (r0, h, t) = Some (Suc r0, fst res, snd res)"
    using e by (cases res) (simp add: search_source_phantom_def)
  with fe have "for_each (search_source_phantom g M B) (p # ps) (r0, h, t) = Some (r0 + length (p # ps), h', t')"
    by simp
  moreover have "length t' = length t" using l' len by simp
  moreover have "\<exists>k c. k < length (p # ps) \<and> reached g B ((p # ps) ! k) c \<and> i = (r0 + k) * M + c"
    if d: "t' ! i \<noteq> t ! i" for i
  proof (cases "t' ! i = snd res ! i")
    case True
    with d first obtain c where "reached g B p c" "i = r0 * M + c" by auto
    then have "0 < length (p # ps) \<and> reached g B ((p # ps) ! 0) c \<and> i = (r0 + 0) * M + c" by simp
    then show ?thesis by blast
  next
    case False
    from ch [OF False] obtain k c where "k < length ps" "reached g B (ps ! k) c" "i = (Suc r0 + k) * M + c"
      by blast
    then have "Suc k < length (p # ps) \<and> reached g B ((p # ps) ! Suc k) c \<and> i = (r0 + Suc k) * M + c"
      by simp
    then show ?thesis by blast
  qed
  ultimately show ?case by blast
qed

lemma reached_below: "buckets_below M B \<Longrightarrow> reached g B p c \<Longrightarrow> c < M"
  by (auto simp: buckets_below_def reached_def)

lemma cell_index_unique:
  fixes M :: nat
  assumes "r * M + c = k * M + c'" "c < M" "c' < M"
  shows "r = k \<and> c = c'"
proof -
  from assms have "(r * M + c) div M = (k * M + c') div M" by simp
  with assms(2,3) have "r = k" by simp
  with assms(1) show ?thesis by simp
qed

lemma selected_all: "selected ps [] = selected ps [0..<length ps]"
  by (cases "ps = []") (simp_all add: selected_def map_nth)

lemma length_selected_sources: "length (selected ps is) = number_of_sources ps is"
  by (simp add: selected_def number_of_sources_def)

lemma length_selected_targets: "length (selected ps is) = number_of_targets ps is"
  by (simp add: selected_def number_of_targets_def)

section \<open>Keys are path weights\<close>

lemma fst_BackwardRoutingStep_search_step:
  "fst (BackwardRoutingStep g c st) = search_step False g (fst st)"
  by (simp add: fst_BackwardRoutingStep search_step_def)

lemma fst_ForwardRoutingStep_search_step:
  "fst (ForwardRoutingStep g r M B st) = search_step True g (fst st)"
  by (simp add: fst_ForwardRoutingStep search_step_def)

lemma GetKey_Insert: "GetKey (Insert n w p h) x = (if x = n then w else GetKey h x)"
  by (simp add: GetKey_def Insert_def)

lemma GetKey_SetParent [simp]: "GetKey (SetParent n p h) x = GetKey h x"
  by (simp add: GetKey_def SetParent_def split: option.splits)

lemma GetKey_DecreaseKey:
  "WasInserted h n \<Longrightarrow> GetKey (DecreaseKey n w h) x = (if x = n then w else GetKey h x)"
  by (auto simp: GetKey_def DecreaseKey_def WasInserted_def split: option.splits)

lemma relax_edge_paths:
  assumes k: "keys_are_paths fd g seeds h"
    and p: "upward_path fd g seeds node d"
    and e: "e \<in> set (GetAdjacentEdgeRange g node)"
  shows "keys_are_paths fd g seeds (relax_edge fd g node d e h)"
proof -
  let ?to = "GetTarget g e"
  let ?w = "d + edge_distance (GetEdgeData g e)"
  from k have q: "queue_inserted h"
    and kp: "\<And>n. WasInserted h n \<Longrightarrow> upward_path fd g seeds n (GetKey h n)"
    by (simp_all add: keys_are_paths_def)
  consider (ins) "relax_edge fd g node d e h = Insert ?to ?w node h"
      "direction_flag fd (GetEdgeData g e)"
    | (dec) "relax_edge fd g node d e h = DecreaseKey ?to ?w (SetParent ?to node h)"
      "direction_flag fd (GetEdgeData g e)" "WasInserted h ?to"
    | (same) "relax_edge fd g node d e h = h"
    by (cases "direction_flag fd (GetEdgeData g e)"; cases "WasInserted h ?to";
        cases "?w < GetKey h ?to")
       (simp_all add: relax_edge_def Let_def direction_flag_def)
  then show ?thesis
  proof cases
    case ins
    from p e ins(2) have n: "upward_path fd g seeds ?to ?w" by (rule upward_path.edge)
    show ?thesis
      unfolding ins(1) keys_are_paths_def
      using q kp n by (auto simp: queue_inserted_def GetKey_Insert)
  next
    case dec
    from p e dec(2) have n: "upward_path fd g seeds ?to ?w" by (rule upward_path.edge)
    from dec(3) have w: "WasInserted (SetParent ?to node h) ?to" by simp
    show ?thesis
      unfolding dec(1) keys_are_paths_def
      using q kp n by (auto simp: queue_inserted_def GetKey_DecreaseKey [OF w])
  next
    case same
    show ?thesis unfolding same using k .
  qed
qed

lemma fold_relax_edge_paths:
  assumes "keys_are_paths fd g seeds h" "upward_path fd g seeds node d"
    "set es \<subseteq> set (GetAdjacentEdgeRange g node)"
  shows "keys_are_paths fd g seeds (fold (relax_edge fd g node d) es h)"
  using assms
proof (induction es arbitrary: h)
  case Nil
  then show ?case by simp
next
  case (Cons e es)
  from Cons.prems(3) have e: "e \<in> set (GetAdjacentEdgeRange g node)"
    and es: "set es \<subseteq> set (GetAdjacentEdgeRange g node)" by simp_all
  from relax_edge_paths [OF Cons.prems(1,2) e]
  have "keys_are_paths fd g seeds (relax_edge fd g node d e h)" .
  from Cons.IH [OF this Cons.prems(2) es] show ?case by simp
qed

lemma DeleteMin_paths:
  assumes k: "keys_are_paths fd g seeds h" and ne: "heap h \<noteq> []"
  shows "keys_are_paths fd g seeds (snd (DeleteMin h)) \<and>
         upward_path fd g seeds (fst (DeleteMin h)) (GetKey (snd (DeleteMin h)) (fst (DeleteMin h)))"
proof -
  have w: "WasInserted (h\<lparr>heap := xs\<rparr>) = WasInserted h" for xs
    by (simp add: WasInserted_def fun_eq_iff)
  have gk: "GetKey (h\<lparr>heap := xs\<rparr>) = GetKey h" for xs
    by (simp add: GetKey_def fun_eq_iff)
  from MinNode_mem [OF ne] have m: "MinNode h \<in> set (heap h)" .
  with k have wi: "WasInserted h (MinNode h)"
    by (simp add: keys_are_paths_def queue_inserted_def)
  have s: "set (remove1 (MinNode h) (heap h)) \<subseteq> set (heap h)" by (rule set_remove1_subset)
  from k s have "keys_are_paths fd g seeds (h\<lparr>heap := remove1 (MinNode h) (heap h)\<rparr>)"
    by (auto simp: keys_are_paths_def queue_inserted_def w gk)
  moreover from k wi have "upward_path fd g seeds (MinNode h) (GetKey h (MinNode h))"
    by (simp add: keys_are_paths_def)
  ultimately show ?thesis by (simp add: DeleteMin_def gk)
qed

lemma search_step_paths:
  assumes "keys_are_paths fd g seeds h" "heap h \<noteq> []"
  shows "keys_are_paths fd g seeds (search_step fd g h)"
proof -
  from DeleteMin_paths [OF assms]
  have a: "keys_are_paths fd g seeds (snd (DeleteMin h))"
    and b: "upward_path fd g seeds (fst (DeleteMin h))
              (GetKey (snd (DeleteMin h)) (fst (DeleteMin h)))" by simp_all
  from fold_relax_edge_paths [OF a b subset_refl] a
  show ?thesis by (simp add: search_step_def RelaxOutgoingEdges_def)
qed

lemma seed_target_paths: "keys_are_paths False g (target_seeds p) (seed_target p h)"
proof -
  have "queue_inserted (seed_target p h)"
    by (simp add: queue_inserted_def seed_target_def Let_def Clear_def)
  moreover have "upward_path False g (target_seeds p) n (GetKey (seed_target p h) n)"
    if "WasInserted (seed_target p h) n" for n
  proof -
    from that have "(n, GetKey (seed_target p h) n) \<in> target_seeds p"
      by (auto simp: seed_target_def Let_def Clear_def target_seeds_def GetKey_def
            WasInserted_def Insert_def split: if_splits)
    then show ?thesis by (rule upward_path.seed)
  qed
  ultimately show ?thesis by (simp add: keys_are_paths_def)
qed

lemma seed_source_paths: "keys_are_paths True g (source_seeds p) (seed_source p h)"
proof -
  have "queue_inserted (seed_source p h)"
    by (simp add: queue_inserted_def seed_source_def Let_def Clear_def)
  moreover have "upward_path True g (source_seeds p) n (GetKey (seed_source p h) n)"
    if "WasInserted (seed_source p h) n" for n
  proof -
    from that have "(n, GetKey (seed_source p h) n) \<in> source_seeds p"
      by (auto simp: seed_source_def Let_def Clear_def source_seeds_def GetKey_def
            WasInserted_def Insert_def split: if_splits)
    then show ?thesis by (rule upward_path.seed)
  qed
  ultimately show ?thesis by (simp add: keys_are_paths_def)
qed

lemma new_buckets_refl: "new_buckets_are_paths g seeds c B B"
  by (simp add: new_buckets_are_paths_def)

lemma BackwardRoutingStep_buckets:
  assumes k: "keys_are_paths False g seeds (fst st)" and ne: "heap (fst st) \<noteq> []"
    and n: "new_buckets_are_paths g seeds c B0 (snd st)"
  shows "new_buckets_are_paths g seeds c B0 (snd (BackwardRoutingStep g c st))"
  unfolding new_buckets_are_paths_def
proof
  fix x
  let ?node = "fst (DeleteMin (fst st))"
  let ?b = "\<lparr>target_id = c, bucket_distance = GetKey (snd (DeleteMin (fst st))) ?node\<rparr>"
  from n obtain new where new:
    "(case snd st x of None \<Rightarrow> [] | Some bl \<Rightarrow> bl) = (case B0 x of None \<Rightarrow> [] | Some bl \<Rightarrow> bl) @ new"
    "\<forall>b\<in>set new. target_id b = c \<and> upward_path False g seeds x (bucket_distance b)"
    unfolding new_buckets_are_paths_def by blast
  from DeleteMin_paths [OF k ne]
  have p: "upward_path False g seeds ?node (bucket_distance ?b)" by simp
  show "\<exists>new. (case snd (BackwardRoutingStep g c st) x of None \<Rightarrow> [] | Some bl \<Rightarrow> bl) =
              (case B0 x of None \<Rightarrow> [] | Some bl \<Rightarrow> bl) @ new \<and>
              (\<forall>b\<in>set new. target_id b = c \<and> upward_path False g seeds x (bucket_distance b))"
  proof (cases "x = ?node")
    case True
    have "(case snd (BackwardRoutingStep g c st) x of None \<Rightarrow> [] | Some bl \<Rightarrow> bl) =
          (case B0 x of None \<Rightarrow> [] | Some bl \<Rightarrow> bl) @ (new @ [?b])"
      using new(1) True by (simp add: snd_BackwardRoutingStep)
    moreover have "\<forall>b\<in>set (new @ [?b]). target_id b = c \<and>
        upward_path False g seeds x (bucket_distance b)"
      using new(2) p True by auto
    ultimately show ?thesis by blast
  next
    case False
    then have "snd (BackwardRoutingStep g c st) x = snd st x"
      by (simp add: snd_BackwardRoutingStep)
    with new show ?thesis by auto
  qed
qed

lemma explore_backward_paths_aux:
  assumes run: "explore_backward g c st = Some res"
  shows "keys_are_paths False g seeds (fst st) \<and>
         new_buckets_are_paths g seeds c B0 (snd st) \<longrightarrow>
         keys_are_paths False g seeds (fst res) \<and> new_buckets_are_paths g seeds c B0 (snd res) \<and>
         heap (fst res) = []"
proof (rule explore_backward.raw_induct
    [where P = "\<lambda>g c st res. keys_are_paths False g seeds (fst st) \<and>
         new_buckets_are_paths g seeds c B0 (snd st) \<longrightarrow>
         keys_are_paths False g seeds (fst res) \<and> new_buckets_are_paths g seeds c B0 (snd res) \<and>
         heap (fst res) = []", OF _ run])
  fix explore :: "StaticGraph \<Rightarrow> nat \<Rightarrow> QueryHeap \<times> SearchSpaceWithBuckets \<Rightarrow>
      (QueryHeap \<times> SearchSpaceWithBuckets) option"
  fix g c st res
  assume IH: "\<And>g c st res. explore g c st = Some res \<Longrightarrow>
      keys_are_paths False g seeds (fst st) \<and>
      new_buckets_are_paths g seeds c B0 (snd st) \<longrightarrow>
      keys_are_paths False g seeds (fst res) \<and> new_buckets_are_paths g seeds c B0 (snd res) \<and>
      heap (fst res) = []"
    and eq: "(if Empty (fst st) then Some st
              else explore g c (BackwardRoutingStep g c st)) = Some res"
  show "keys_are_paths False g seeds (fst st) \<and>
      new_buckets_are_paths g seeds c B0 (snd st) \<longrightarrow>
      keys_are_paths False g seeds (fst res) \<and> new_buckets_are_paths g seeds c B0 (snd res) \<and>
      heap (fst res) = []"
  proof
    assume a: "keys_are_paths False g seeds (fst st) \<and>
      new_buckets_are_paths g seeds c B0 (snd st)"
    then have k0: "keys_are_paths False g seeds (fst st)"
      and n0: "new_buckets_are_paths g seeds c B0 (snd st)" by simp_all
    show "keys_are_paths False g seeds (fst res) \<and>
      new_buckets_are_paths g seeds c B0 (snd res) \<and> heap (fst res) = []"
    proof (cases "Empty (fst st)")
      case True
      with eq k0 n0 show ?thesis by (simp add: Empty_def)
    next
      case False
      then have ne: "heap (fst st) \<noteq> []" by (simp add: Empty_def)
      from False eq have r: "explore g c (BackwardRoutingStep g c st) = Some res" by simp
      from search_step_paths [OF k0 ne]
      have k: "keys_are_paths False g seeds (fst (BackwardRoutingStep g c st))"
        by (simp add: fst_BackwardRoutingStep_search_step)
      from IH [OF r] k BackwardRoutingStep_buckets [OF k0 ne n0] show ?thesis by blast
    qed
  qed
qed

lemma explore_backward_paths:
  "explore_backward g c st = Some res \<Longrightarrow>
   keys_are_paths False g seeds (fst st) \<Longrightarrow>
   new_buckets_are_paths g seeds c B0 (snd st) \<Longrightarrow>
   keys_are_paths False g seeds (fst res) \<and> new_buckets_are_paths g seeds c B0 (snd res) \<and>
   heap (fst res) = []"
  using explore_backward_paths_aux by blast

lemma explore_forward_paths_aux:
  assumes run: "explore_forward g r M B st = Some res"
  shows "keys_are_paths True g seeds (fst st) \<longrightarrow>
         keys_are_paths True g seeds (fst res) \<and> heap (fst res) = []"
proof (rule explore_forward.raw_induct
    [where P = "\<lambda>g r M B st res. keys_are_paths True g seeds (fst st) \<longrightarrow>
         keys_are_paths True g seeds (fst res) \<and> heap (fst res) = []", OF _ run])
  fix explore :: "StaticGraph \<Rightarrow> nat \<Rightarrow> nat \<Rightarrow> SearchSpaceWithBuckets \<Rightarrow>
      QueryHeap \<times> EdgeWeight list \<Rightarrow> (QueryHeap \<times> EdgeWeight list) option"
  fix g r M B st res
  assume IH: "\<And>g r M B st res. explore g r M B st = Some res \<Longrightarrow>
      keys_are_paths True g seeds (fst st) \<longrightarrow>
      keys_are_paths True g seeds (fst res) \<and> heap (fst res) = []"
    and eq: "(if Empty (fst st) then Some st
              else explore g r M B (ForwardRoutingStep g r M B st)) = Some res"
  show "keys_are_paths True g seeds (fst st) \<longrightarrow>
      keys_are_paths True g seeds (fst res) \<and> heap (fst res) = []"
  proof
    assume k0: "keys_are_paths True g seeds (fst st)"
    show "keys_are_paths True g seeds (fst res) \<and> heap (fst res) = []"
    proof (cases "Empty (fst st)")
      case True
      with eq k0 show ?thesis by (simp add: Empty_def)
    next
      case False
      then have ne: "heap (fst st) \<noteq> []" by (simp add: Empty_def)
      from False eq have r: "explore g r M B (ForwardRoutingStep g r M B st) = Some res"
        by simp
      from search_step_paths [OF k0 ne]
      have k: "keys_are_paths True g seeds (fst (ForwardRoutingStep g r M B st))"
        by (simp add: fst_ForwardRoutingStep_search_step)
      from IH [OF r] k show ?thesis by blast
    qed
  qed
qed

lemma explore_forward_paths:
  "explore_forward g r M B st = Some res \<Longrightarrow>
   keys_are_paths True g seeds (fst st) \<Longrightarrow>
   keys_are_paths True g seeds (fst res) \<and> heap (fst res) = []"
  using explore_forward_paths_aux by blast

section \<open>Claims about the many-to-many table\<close>



text \<open>
  The table of the spec's scenario (three nodes in a line, both edges of weight 5),
  computed by the model.
\<close>

lemma many_to_many_line: "many_to_many line_graph empty_heap line_phantoms [] [] =
    Some [0, 5, 10, 5, 0, 5, 10, 5, 0]"
  by code_simp



section \<open>Claims about the facade\<close>

lemma find_in_range_result:
  "(find_in_range g v es = SPECIAL_EDGEID \<and> (\<forall>e\<in>set es. target (edge_array g ! e) \<noteq> v)) \<or>
   (find_in_range g v es \<in> set es \<and> target (edge_array g ! find_in_range g v es) = v)"
  by (induction es) auto

text \<open>
  Claim C4.  On a valid facade, for a node \<open>u\<close> and any \<open>v\<close>, \<open>FindEdge(u,v)\<close> is
  either the sentinel \<open>SPECIAL_EDGEID\<close>, and then no edge of \<open>u\<close>'s range has target
  \<open>v\<close>, or an edge id \<open>e\<close> other than the sentinel with \<open>GetTarget(e) = v\<close> and
  \<open>BeginEdges(u) \<le> e < EndEdges(u)\<close>.
\<close>

theorem FindEdge_result:
  assumes "valid_graph g" and "u < GetNumberOfNodes g"
  shows "(FindEdge g u v = SPECIAL_EDGEID \<and>
            (\<forall>e. BeginEdges g u \<le> e \<and> e < EndEdges g u \<longrightarrow> GetTarget g e \<noteq> v)) \<or>
         (FindEdge g u v \<noteq> SPECIAL_EDGEID \<and> GetTarget g (FindEdge g u v) = v \<and>
            BeginEdges g u \<le> FindEdge g u v \<and> FindEdge g u v < EndEdges g u)"
proof -
  let ?es = "[BeginEdges g u ..< EndEdges g u]"
  from find_in_range_result [of g v ?es]
  consider (none) "find_in_range g v ?es = SPECIAL_EDGEID"
      "\<forall>e\<in>set ?es. target (edge_array g ! e) \<noteq> v"
    | (found) "find_in_range g v ?es \<in> set ?es"
      "target (edge_array g ! find_in_range g v ?es) = v"
    by blast
  then show ?thesis
  proof cases
    case none
    then show ?thesis by (simp add: FindEdge_def GetTarget_def)
  next
    case found
    from found(1) have "find_in_range g v ?es \<in> set (GetAdjacentEdgeRange g u)"
      by (simp add: GetAdjacentEdgeRange_def)
    from adjacent_edge_valid [OF assms this] assms(1)
    have "find_in_range g v ?es \<noteq> SPECIAL_EDGEID"
      by (auto simp: valid_graph_def)
    with found show ?thesis by (simp add: FindEdge_def GetTarget_def)
  qed
qed

theorem FindEdge_result_witness:
  "valid_graph find_test_graph \<and> 3 < GetNumberOfNodes find_test_graph \<and>
   BeginEdges find_test_graph 3 = 1 \<and> EndEdges find_test_graph 3 = 4 \<and>
   FindEdge find_test_graph 3 0 = 1 \<and> GetTarget find_test_graph 1 = 0 \<and>
   FindEdge find_test_graph 3 1 = SPECIAL_EDGEID"
proof -
  have g: "valid_graph find_test_graph"
    by (simp add: valid_graph_def find_test_graph_def test_edge_def GetNumberOfNodes_def
          SPECIAL_EDGEID_def)
  have n: "3 < GetNumberOfNodes find_test_graph"
    by (simp add: find_test_graph_def GetNumberOfNodes_def)
  have r: "BeginEdges find_test_graph 3 = 1" "EndEdges find_test_graph 3 = 4"
    by (simp_all add: find_test_graph_def BeginEdges_def EndEdges_def)
  have f: "FindEdge find_test_graph 3 0 = 1" "FindEdge find_test_graph 3 1 = SPECIAL_EDGEID"
    by code_simp+
  from FindEdge_result [OF g n, of 0] g n r f
  show ?thesis by (simp add: GetTarget_def find_test_graph_def test_edge_def)
qed

text \<open>The expectations of the unit test \<open>find_test\<close> hold in the model.\<close>

lemma find_test:
  "edge_id (GetEdgeData find_test_graph (FindEdge find_test_graph 0 1)) = 1"
  "FindEdge find_test_graph 1 0 = SPECIAL_EDGEID"
  "FindEdge find_test_graph 3 1 = SPECIAL_EDGEID"
  "FindEdge find_test_graph 0 4 = SPECIAL_EDGEID"
  "edge_id (GetEdgeData find_test_graph (FindEdge find_test_graph 3 4)) = 3"
  "edge_id (GetEdgeData find_test_graph (FindEdge find_test_graph 3 0)) = 2"
  by code_simp+

section \<open>The router command line\<close>

text \<open>
  Claim C6.  The spec makes a command line with neither a base path nor
  \<open>--shared-memory\<close>, or with both, a usage error with exit code 1.  The code prints
  the usage (after a warning, when both are given), returns
  \<open>INIT_OK_DO_NOT_START_ENGINE\<close> and \<open>main\<close> exits with \<open>EXIT_SUCCESS\<close>, while a
  command line that fails to parse exits with \<open>EXIT_FAILURE\<close>.
\<close>

theorem routed_exit_code_without_or_with_both:
  "routed_main no_arguments = Exit 0 \<and>
   routed_main base_and_shared_memory = Exit 0 \<and>
   routed_main (no_arguments\<lparr>parse_error := True\<rparr>) = Exit 1"
  by (simp add: routed_main_def generateServerProgramOptions_def no_arguments_def
        base_and_shared_memory_def INIT_OK_DO_NOT_START_ENGINE_def INIT_FAILED_def
        INIT_OK_START_ENGINE_def EXIT_SUCCESS_def EXIT_FAILURE_def)

section \<open>The size of a hint\<close>

lemma length_u32_bytes: "length (u32_bytes w) = 4"
  by (simp add: u32_bytes_def)

lemma length_u16_bytes: "length (u16_bytes w) = 2"
  by (simp add: u16_bytes_def)

text \<open>
  Claim C7 says that a hint record, the serialized phantom together with the facade
  checksum, has 60 bytes before the base-64 encoding.  In the code the
  \<open>PhantomNode\<close> alone has 60 bytes; the hint adds the 32-bit checksum and has 64.
\<close>

theorem hint_record_size:
  "length (PhantomNode_bytes p) = 60 \<and> length (Hint_bytes h) = 64"
  by (simp add: Hint_bytes_def PhantomNode_bytes_def SegmentID_bytes_def Coordinate_bytes_def
        length_u32_bytes length_u16_bytes)

theorem hint_record_size_counterexample:
  "length (Hint_bytes \<lparr>phantom = test_hint_phantom, data_checksum = 0\<rparr>) \<noteq> 60"
  by (simp add: Hint_bytes_def PhantomNode_bytes_def SegmentID_bytes_def Coordinate_bytes_def
        length_u32_bytes length_u16_bytes)

text \<open>
  The hint string of the unit test decodes to 64 bytes: the image of a phantom on the
  forward node 524 (60 bytes), followed by four bytes of checksum.
\<close>

lemma test_hint_decoded:
  "length (base64_decode test_hint) = 64"
  "take 60 (base64_decode test_hint) = PhantomNode_bytes test_hint_phantom"
  by code_simp+

section \<open>Claims about the guidance post-processing\<close>

lemma filter_keeps_ends:
  assumes "P a" "P b"
  shows "filter P (a # mid @ [b]) = a # filter P mid @ [b]"
  using assms by simp

lemma sweep_keeps_invariant:
  assumes "depart_arrive_invariant steps"
  shows "depart_arrive_invariant (removeNoTurnInstructions steps)"
proof -
  from assms have len: "2 \<le> length steps" by (simp add: depart_arrive_invariant_def)
  then obtain a rest where s1: "steps = a # rest" by (cases steps) auto
  with len have "rest \<noteq> []" by auto
  then obtain mid b where s2: "rest = mid @ [b]" by (metis rev_exhaust)
  from s1 s2 have s: "steps = a # mid @ [b]" by simp
  from assms have a: "\<not> not_is_valid a" and b: "\<not> not_is_valid b"
    by (simp_all add: depart_arrive_invariant_def not_is_valid_def s)
  have "removeNoTurnInstructions steps = a # filter (\<lambda>step. \<not> not_is_valid step) mid @ [b]"
    unfolding removeNoTurnInstructions_def s using a b by simp
  with assms show ?thesis
    by (simp add: depart_arrive_invariant_def s)
qed

text \<open>No loop of a pass changes the number of steps; only the final sweep does.\<close>

lemma length_collapseTurnAt [simp]:
  "length (collapseTurnAt tk steps a b c) = length steps"
  by (simp add: collapseTurnAt_def Let_def)

lemma length_collapse_sliproad [simp]:
  "length (collapse_sliproad tk a b steps) = length steps"
  by (simp add: collapse_sliproad_def Let_def)

lemma length_collapse_name_oscillation [simp]:
  "length (collapse_name_oscillation tk a b steps) = length steps"
  by (simp add: collapse_name_oscillation_def Let_def)

lemma length_fold_collapse_into_name [simp]:
  "length (fold (collapse_into_name l) is steps) = length steps"
  by (induction "is" arbitrary: steps) (simp_all add: collapse_into_name_def)

lemma length_collapse_step [simp]:
  "length (collapse_step tk i steps) = length steps"
  by (simp add: collapse_step_def Let_def)

lemma length_fold_collapse_step [simp]:
  "length (fold (collapse_step tk) is steps) = length steps"
  by (induction "is" arbitrary: steps) simp_all

lemma length_handle_final_sliproad [simp]:
  "length (handle_final_sliproad steps) = length steps"
  by (simp add: handle_final_sliproad_def)

lemma length_propagate_exit [simp]:
  "length (propagate_exit tk eb dc k steps) = length steps"
  by (induction k arbitrary: steps) (simp_all add: Let_def)

lemma length_closeOffRoundabout [simp]:
  "length (closeOffRoundabout tk on steps i) = length steps"
  by (simp add: closeOffRoundabout_def Let_def)

lemma length_fix_final_loop [simp]:
  "length (fix_final_loop tk k steps) = length steps"
  by (induction k arbitrary: steps) (simp_all add: Let_def)

lemma length_post_process_step [simp]:
  "length (fst (post_process_step tk i st)) = length (fst st)"
  by (cases st) (simp add: post_process_step_def Let_def)

lemma length_fold_post_process_step [simp]:
  "length (fst (fold (post_process_step tk) is st)) = length (fst st)"
  by (induction "is" arbitrary: st) simp_all

lemma length_build_intersections_step [simp]:
  "length (fst (build_intersections_step tk i st)) = length (fst st)"
  by (cases st) (simp add: build_intersections_step_def Let_def)

lemma length_fold_build_intersections_step [simp]:
  "length (fst (fold (build_intersections_step tk) is st)) = length (fst st)"
  by (induction "is" arbitrary: st) simp_all

lemma length_fold_collapse_use_lane_step [simp]:
  "length (fold collapse_use_lane_step is steps) = length steps"
  by (induction "is" arbitrary: steps) (simp_all add: collapse_use_lane_step_def Let_def)

lemma previous_index_loop_le: "previous_index_loop s k \<le> k"
  by (induction k) auto

lemma previous_index_loop_cong:
  "(\<And>j. 0 < j \<Longrightarrow> j \<le> k \<Longrightarrow> (step_type (s' ! j) = NoTurn) = (step_type (s ! j) = NoTurn)) \<Longrightarrow>
   previous_index_loop s' k = previous_index_loop s k"
  by (induction k) auto

lemma elongate_append:
  assumes "geometry_end step = geometry_begin by_step + 1"
  shows "maneuver (elongate step by_step) = maneuver step"
    "geometry_begin (elongate step by_step) = geometry_begin step"
    "geometry_end (elongate step by_step) = geometry_end by_step"
    "intersections (elongate step by_step) = intersections step @ intersections by_step"
  using assms by (simp_all add: elongate_def)

lemma depart_arrive_invariant_iff:
  "depart_arrive_invariant steps \<longleftrightarrow>
     2 \<le> length steps \<and> depart_ok (steps ! 0) \<and> arrive_ok (steps ! (length steps - 1))"
  by (cases steps) (auto simp add: depart_arrive_invariant_def depart_ok_def arrive_ok_def
        hd_conv_nth last_conv_nth)

lemma depart_ok_elongate:
  "depart_ok step \<Longrightarrow> geometry_end step = geometry_begin by_step + 1 \<Longrightarrow>
   depart_ok (elongate step by_step)"
  by (cases "intersections step") (simp_all add: depart_ok_def elongate_append front_def)

lemma well_formed_legD:
  assumes "well_formed_leg steps"
  shows "2 \<le> length steps" "depart_ok (steps ! 0)" "arrive_ok (steps ! (length steps - 1))"
    "step_type (steps ! 0) = NoTurn" "step_type (steps ! (length steps - 1)) = NoTurn"
    "\<And>i. 0 < i \<Longrightarrow> i + 1 < length steps \<Longrightarrow> step_type (steps ! i) \<noteq> NoTurn"
    "\<And>i. i + 1 < length steps \<Longrightarrow> geometry_end (steps ! i) = geometry_begin (steps ! (i + 1)) + 1"
proof -
  from assms have i: "depart_arrive_invariant steps" by (simp add: well_formed_leg_def)
  then show l: "2 \<le> length steps" and "depart_ok (steps ! 0)"
    and "arrive_ok (steps ! (length steps - 1))"
    by (simp_all add: depart_arrive_invariant_iff)
  from l have ne: "steps \<noteq> []" by auto
  from assms ne show "step_type (steps ! 0) = NoTurn"
    "step_type (steps ! (length steps - 1)) = NoTurn"
    by (simp_all add: well_formed_leg_def hd_conv_nth last_conv_nth)
  show "\<And>i. 0 < i \<Longrightarrow> i + 1 < length steps \<Longrightarrow> step_type (steps ! i) \<noteq> NoTurn"
    using assms by (simp add: well_formed_leg_def list_all_iff)
  show "\<And>i. i + 1 < length steps \<Longrightarrow>
      geometry_end (steps ! i) = geometry_begin (steps ! (i + 1)) + 1"
    using assms by (simp add: well_formed_leg_def list_all_iff)
qed

lemma use_lane_loop:
  assumes wf: "well_formed_leg steps"
  shows "1 \<le> m \<Longrightarrow> m \<le> length steps \<Longrightarrow>
     length (fold collapse_use_lane_step [1..<m] steps) = length steps \<and>
     (\<forall>k\<ge>m. (fold collapse_use_lane_step [1..<m] steps) ! k = steps ! k) \<and>
     depart_ok ((fold collapse_use_lane_step [1..<m] steps) ! 0) \<and>
     (fold collapse_use_lane_step [1..<m] steps) ! (length steps - 1) = steps ! (length steps - 1) \<and>
     (m < length steps \<longrightarrow>
        geometry_end ((fold collapse_use_lane_step [1..<m] steps) !
            previous_index_loop (fold collapse_use_lane_step [1..<m] steps) (m - 1)) =
        geometry_end (steps ! (m - 1)))"
proof (induction m rule: nat_induct_at_least)
  case base
  from well_formed_legD [OF wf] show ?case by simp
next
  case (Suc m)
  define s where "s = fold collapse_use_lane_step [1..<m] steps"
  define p where "p = previous_index_loop s (m - 1)"
  from Suc.hyps have f: "fold collapse_use_lane_step [1..<Suc m] steps = collapse_use_lane_step m s"
    by (simp add: s_def)
  from Suc have m: "m < length steps" by simp
  from Suc.IH m have len: "length s = length steps"
    and same: "\<And>k. m \<le> k \<Longrightarrow> s ! k = steps ! k"
    and d: "depart_ok (s ! 0)"
    and la: "s ! (length steps - 1) = steps ! (length steps - 1)"
    and e: "geometry_end (s ! p) = geometry_end (steps ! (m - 1))"
    by (simp_all add: s_def p_def)
  from well_formed_legD(7) [OF wf, of "m - 1"] m Suc.hyps
  have ch: "geometry_end (steps ! (m - 1)) = geometry_begin (steps ! m) + 1" by simp
  have pm: "p < m" using previous_index_loop_le [of s "m - 1"] Suc.hyps by (simp add: p_def)
  show ?case
  proof (cases "step_type (s ! m) = UseLane \<and>
            canCollapeUseLane (lanes (front (intersections (s ! m))))
              (lane_description (front (intersections (s ! m))))")
    case True
    then have ul: "step_type (steps ! m) = UseLane" by (simp add: same)
    have mlast: "Suc m < length steps"
    proof (rule ccontr)
      assume "\<not> Suc m < length steps"
      with m have "length steps - 1 = m" by simp
      with well_formed_legD(5) [OF wf] ul show False by simp
    qed
    define s' where "s' = (s[p := elongate (s ! p) (steps ! m)])[m := getInvalidRouteStep]"
    from True have cs: "collapse_use_lane_step m s = s'"
      by (simp add: collapse_use_lane_step_def s'_def p_def getPreviousIndex_def Let_def same)
    have ap: "geometry_end (s ! p) = geometry_begin (steps ! m) + 1"
      using e ch by simp
    have ty: "\<And>j. j \<le> m - 1 \<Longrightarrow> step_type (s' ! j) = step_type (s ! j)"
      using pm len m elongate_append(1) [OF ap]
      by (auto simp add: s'_def nth_list_update step_type_def)
    have pl: "previous_index_loop s' (m - 1) = p"
      unfolding p_def by (rule previous_index_loop_cong) (simp add: ty)
    have inv: "step_type (s' ! m) = NoTurn"
      using len m by (simp add: s'_def step_type_def getInvalidRouteStep_def
          getInvalidStepManeuver_def NO_TURN_def)
    from Suc.hyps obtain m' where m': "m = Suc m'" by (cases m) auto
    have pl2: "previous_index_loop s' m = p"
      using pl inv by (simp add: m')
    have "geometry_end (s' ! p) = geometry_end (steps ! m)"
      using pm len m by (simp add: s'_def elongate_append [OF ap] same)
    moreover have "steps \<noteq> []" using m by auto
    then have "depart_ok (s' ! 0)"
      using d pm len m Suc.hyps depart_ok_elongate [OF _ ap]
      by (cases "p = 0") (simp_all add: s'_def nth_list_update)
    moreover have "\<forall>k\<ge>Suc m. s' ! k = steps ! k"
      using pm by (simp add: s'_def same)
    moreover have "length s' = length steps" by (simp add: s'_def len)
    moreover have "s' ! (length steps - 1) = steps ! (length steps - 1)"
      using pm mlast la by (simp add: s'_def)
    ultimately show ?thesis unfolding f cs using pl2 by simp
  next
    case False
    then have cs: "collapse_use_lane_step m s = s"
      by (auto simp add: collapse_use_lane_step_def Let_def)
    from Suc.hyps obtain m' where m': "m = Suc m'" by (cases m) auto
    have "Suc m < length steps \<Longrightarrow> previous_index_loop s m = m"
      using well_formed_legD(6) [OF wf, of m] Suc.hyps by (simp add: m' same [of m, unfolded m'])
    then show ?thesis unfolding f cs using len same d la by (simp add: same)
  qed
qed

lemma collapseUseLane_keeps_invariant:
  assumes wf: "well_formed_leg steps"
  shows "depart_arrive_invariant (collapseUseLane steps)"
proof -
  from well_formed_legD [OF wf] have l: "2 \<le> length steps"
    and a: "arrive_ok (steps ! (length steps - 1))" by simp_all
  from use_lane_loop [OF wf, of "length steps"] l
  have "depart_arrive_invariant (fold collapse_use_lane_step [1..<length steps] steps)"
    using a by (simp add: depart_arrive_invariant_iff)
  then show ?thesis unfolding collapseUseLane_def by (rule sweep_keeps_invariant)
qed

lemma build_intersections_loop:
  assumes wf: "well_formed_leg steps" and an: "announced_or_suppressed tk steps"
  shows "1 \<le> m \<Longrightarrow> m \<le> length steps \<Longrightarrow>
     (case fold (build_intersections_step tk) [0..<m] (steps, 0) of (s, l) \<Rightarrow>
        length s = length steps \<and>
        (\<forall>k\<ge>m. s ! k = steps ! k) \<and>
        depart_ok (s ! 0) \<and>
        s ! (length steps - 1) = steps ! (length steps - 1) \<and>
        (m < length steps \<longrightarrow> l < m \<and> geometry_end (s ! l) = geometry_end (steps ! (m - 1))))"
proof (induction m rule: nat_induct_at_least)
  case base
  have "build_intersections_step tk 0 (steps, 0) = (steps, 0)"
    using well_formed_legD(4) [OF wf]
    by (simp add: build_intersections_step_def Let_def step_type_def)
  with well_formed_legD [OF wf] show ?case by simp
next
  case (Suc m)
  obtain s l where sl: "fold (build_intersections_step tk) [0..<m] (steps, 0) = (s, l)"
    by (cases "fold (build_intersections_step tk) [0..<m] (steps, 0)")
  then have f: "fold (build_intersections_step tk) [0..<Suc m] (steps, 0) =
      build_intersections_step tk m (s, l)" by simp
  from Suc have m: "m < length steps" by simp
  from Suc.IH m sl have len: "length s = length steps"
    and same: "\<And>k. m \<le> k \<Longrightarrow> s ! k = steps ! k"
    and d: "depart_ok (s ! 0)"
    and la: "s ! (length steps - 1) = steps ! (length steps - 1)"
    and lm: "l < m"
    and e: "geometry_end (s ! l) = geometry_end (steps ! (m - 1))"
    by simp_all
  from well_formed_legD(7) [OF wf, of "m - 1"] m Suc.hyps
  have ch: "geometry_end (steps ! (m - 1)) = geometry_begin (steps ! m) + 1" by simp
  have ne: "steps \<noteq> []" using m by auto
  have last_type: "Suc m = length steps \<Longrightarrow> step_type (steps ! m) = NoTurn"
  proof -
    assume "Suc m = length steps"
    then have "length steps - 1 = m" by simp
    with well_formed_legD(5) [OF wf] show ?thesis by simp
  qed
  consider (suppressed) "step_type (steps ! m) = Suppressed"
    | (announced) "step_type (steps ! m) \<noteq> Suppressed"
        "\<not> isSilent tk (instruction (maneuver (steps ! m)))"
    | (silent) "step_type (steps ! m) \<noteq> Suppressed"
        "isSilent tk (instruction (maneuver (steps ! m)))"
    by blast
  then show ?case
  proof cases
    case suppressed
    with last_type m have mlast: "Suc m < length steps"
      by (cases "Suc m = length steps") auto
    define s' where "s' = (s[l := elongate (s ! l) (steps ! m)])
        [m := set_instruction NO_TURN (steps ! m)]"
    from suppressed lm have bs: "build_intersections_step tk m (s, l) = (s', l)"
      using len m
      by (simp add: build_intersections_step_def Let_def step_type_def same s'_def)
    have ap: "geometry_end (s ! l) = geometry_begin (steps ! m) + 1"
      using e ch by simp
    have "geometry_end (s' ! l) = geometry_end (steps ! m)"
      using lm len m by (simp add: s'_def elongate_append [OF ap])
    moreover have "depart_ok (s' ! 0)"
      using d lm len m ne Suc.hyps depart_ok_elongate [OF _ ap]
      by (cases "l = 0") (simp_all add: s'_def nth_list_update)
    moreover have "\<forall>k\<ge>Suc m. s' ! k = steps ! k"
      using lm by (simp add: s'_def same)
    moreover have "length s' = length steps" by (simp add: s'_def len)
    moreover have "s' ! (length steps - 1) = steps ! (length steps - 1)"
      using lm mlast la by (simp add: s'_def)
    ultimately show ?thesis unfolding f bs using lm by simp
  next
    case announced
    define s' where "s' = (if step_type (steps ! m) = EndOfRoad \<and>
        length (intersections (s ! l)) < MIN_END_OF_ROAD_INTERSECTIONS
        then s[m := set_type Turn (steps ! m)] else s)"
    from announced have bs: "build_intersections_step tk m (s, l) = (s', m)"
      by (simp add: build_intersections_step_def Let_def step_type_def same s'_def)
    have "geometry_end (s' ! m) = geometry_end (steps ! m)"
      using len m by (simp add: s'_def same set_type_def set_instruction_def)
    moreover have "depart_ok (s' ! 0)"
      using d Suc.hyps by (simp add: s'_def)
    moreover have "\<forall>k\<ge>Suc m. s' ! k = steps ! k"
      by (simp add: s'_def same)
    moreover have "length s' = length steps" by (simp add: s'_def len)
    moreover have "s' ! (length steps - 1) = steps ! (length steps - 1)"
      using la last_type m by (cases "Suc m = length steps") (auto simp add: s'_def)
    ultimately show ?thesis unfolding f bs by simp
  next
    case silent
    then have bs: "build_intersections_step tk m (s, l) = (s, l)"
      by (simp add: build_intersections_step_def Let_def step_type_def same)
    have "\<not> Suc m < length steps"
      using an silent Suc.hyps by (auto simp add: announced_or_suppressed_def list_all_iff)
    then show ?thesis unfolding f bs using len same d la by simp
  qed
qed

lemma buildIntersections_keeps_invariant:
  assumes wf: "well_formed_leg steps" and an: "announced_or_suppressed tk steps"
  shows "depart_arrive_invariant (buildIntersections tk steps)"
proof -
  from well_formed_legD [OF wf] have l: "2 \<le> length steps"
    and a: "arrive_ok (steps ! (length steps - 1))" by simp_all
  obtain s k where sl: "fold (build_intersections_step tk) [0..<length steps] (steps, 0) = (s, k)"
    by (cases "fold (build_intersections_step tk) [0..<length steps] (steps, 0)")
  from build_intersections_loop [OF wf an, of "length steps"] l sl
  have "depart_arrive_invariant s"
    using a by (simp add: depart_arrive_invariant_iff)
  then show ?thesis unfolding buildIntersections_def sl fst_conv by (rule sweep_keeps_invariant)
qed

lemma depart_ok_ends_data: "ends_data b = ends_data a \<Longrightarrow> depart_ok b = depart_ok a"
  by (simp add: ends_data_def depart_ok_def)

lemma arrive_ok_ends_data: "ends_data b = ends_data a \<Longrightarrow> arrive_ok b = arrive_ok a"
  by (simp add: ends_data_def arrive_ok_def)

lemma ends_data_set [simp]:
  "ends_data (set_exit e x) = ends_data x"
  "ends_data (set_type t x) = ends_data x"
  "ends_data (set_modifier d x) = ends_data x"
  "ends_data (set_instruction i x) = ends_data x"
  by (simp_all add: ends_data_def set_exit_def set_type_def set_modifier_def set_instruction_def)

lemma step_type_set [simp]:
  "step_type (set_exit e x) = step_type x"
  "step_type (set_type t x) = t"
  "step_type (set_modifier d x) = step_type x"
  "step_type (forwardInto x y) = step_type x"
  "step_type (forwardStepSignage x y) = step_type x"
  by (simp_all add: step_type_def set_exit_def set_type_def set_modifier_def set_instruction_def
        forwardInto_def forwardStepSignage_def)

lemma step_type_update [simp]:
  "step_type (x\<lparr>rotary_name := a, rotary_pronunciation := b\<rparr>) = step_type x"
  "step_type (x\<lparr>geometry_begin := g\<rparr>) = step_type x"
  "step_type (x\<lparr>geometry_end := g\<rparr>) = step_type x"
  "step_type (x\<lparr>intersections := is\<rparr>) = step_type x"
  "step_type (x\<lparr>duration := d, distance := d'\<rparr>) = step_type x"
  by (simp_all add: step_type_def)

lemma step_type_invalid [simp]: "step_type getInvalidRouteStep = NoTurn"
  by (simp add: step_type_def getInvalidRouteStep_def getInvalidStepManeuver_def NO_TURN_def)

lemma setUpRoundabout_ends [simp]: "ends_data (snd (setUpRoundabout tk x)) = ends_data x"
  by (simp add: setUpRoundabout_def Let_def)

lemma setUpRoundabout_type:
  "step_type x \<noteq> StayOnRoundabout \<Longrightarrow> step_type (snd (setUpRoundabout tk x)) \<noteq> StayOnRoundabout"
  by (simp add: setUpRoundabout_def Let_def step_type_def [symmetric])

lemma propagate_exit_frame:
  "k + 2 < length s \<Longrightarrow>
   propagate_exit tk eb dc k s ! 0 = s ! 0 \<and>
   (\<forall>j>k + 1. propagate_exit tk eb dc k s ! j = s ! j) \<and>
   (step_type (s ! 1) \<noteq> StayOnRoundabout \<longrightarrow>
      step_type (propagate_exit tk eb dc k s ! 1) \<noteq> StayOnRoundabout)"
proof (induction k arbitrary: s)
  case 0
  show ?case by simp
next
  case (Suc k)
  define x where "x = forwardInto (s ! Suc k) (s ! (Suc k + 1))"
  show ?case
  proof (cases "entersRoundabout tk (instruction (maneuver x))")
    case True
    define y where "y = forwardStepSignage
        (if step_type x = EnterRotary \<or> step_type x = EnterRotaryAtExit
         then x\<lparr>rotary_name := name x, rotary_pronunciation := pronunciation x\<rparr>
         else if step_type x = EnterRoundaboutIntersection \<or>
                 step_type x = EnterRoundaboutIntersectionAtExit
         then set_modifier
                (getTurnDirection tk
                   (turn_angle
                      (reverseBearing tk
                         (real_of_int (bearings (front (intersections x)) !
                            intersection_in (front (intersections x)))))
                      eb)) x
         else x) dc"
    have p: "propagate_exit tk eb dc (Suc k) s = s[Suc k := y, Suc k + 1 := getInvalidRouteStep]"
      using True by (simp add: x_def y_def Let_def)
    have ty: "step_type y = step_type (s ! Suc k)"
      by (simp add: y_def x_def step_type_def forwardStepSignage_def forwardInto_def
            set_modifier_def set_instruction_def)
    show ?thesis unfolding p using Suc.prems ty
      by (cases k) (simp_all add: nth_list_update)
  next
    case False
    define s' where "s' = s[Suc k := x, Suc k + 1 := getInvalidRouteStep]"
    have p: "propagate_exit tk eb dc (Suc k) s = propagate_exit tk eb dc k s'"
      using False by (simp add: x_def s'_def Let_def)
    have l: "k + 2 < length s'" using Suc.prems by (simp add: s'_def)
    have ty: "step_type (s ! 1) \<noteq> StayOnRoundabout \<Longrightarrow> step_type (s' ! 1) \<noteq> StayOnRoundabout"
      using Suc.prems by (cases k) (simp_all add: s'_def x_def nth_list_update)
    from Suc.IH [OF l] ty Suc.prems show ?thesis unfolding p
      by (simp add: s'_def)
  qed
qed

lemma exitToEnter_type [simp]: "exitToEnter t \<noteq> StayOnRoundabout"
  by (simp add: exitToEnter_def)

lemma closeOffRoundabout_frame:
  assumes "3 \<le> length s" "i + 1 < length s"
  shows "ends_data (closeOffRoundabout tk on s i ! 0) = ends_data (s ! 0)"
    "closeOffRoundabout tk on s i ! (length s - 1) = s ! (length s - 1)"
    "step_type (s ! 1) \<noteq> StayOnRoundabout \<Longrightarrow>
     step_type (closeOffRoundabout tk on s i ! 1) \<noteq> StayOnRoundabout"
proof -
  define steps1 where "steps1 = s[i := set_exit (exit (maneuver (s ! i)) + 1) (s ! i)]"
  define steps2 where "steps2 =
            (if \<not> on then
               (let a = steps1[0 := (steps1 ! 0)\<lparr>geometry_end := 1\<rparr>];
                    b = a[1 := (a ! 1)\<lparr>geometry_begin := 0\<rparr>];
                    c = b[1 := forwardInto (b ! 1) (b ! 0)];
                    d = c[1 := (c ! 1)\<lparr>intersections := tl (intersections (c ! 1))\<rparr>];
                    e = (if leavesRoundabout tk (instruction (maneuver (d ! 1)))
                         then d[1 := set_exit 1 (d ! 1)] else d);
                    f = e[0 := (e ! 0)\<lparr>duration := 0, distance := 0\<rparr>];
                    g = f[1 := set_type (exitToEnter (step_type (f ! i))) (f ! 1)]
                in if step_type (g ! 1) = EnterRotary
                   then g[1 := (g ! 1)\<lparr>rotary_name := name (g ! 0),
                                        rotary_pronunciation := pronunciation (g ! 0)\<rparr>]
                   else g)
             else steps1)"
  have c: "closeOffRoundabout tk on s i =
      (if i > 1 then propagate_exit tk
          (real_of_int (bearings (front (intersections (steps2 ! i))) !
              intersection_out (front (intersections (steps2 ! i)))))
          (steps2 ! i) (i - 1) steps2 else steps2)"
    by (simp add: closeOffRoundabout_def steps1_def steps2_def Let_def)
  have l1: "length steps1 = length s" by (simp add: steps1_def)
  from assms have ne: "s \<noteq> []" "steps1 \<noteq> []" by (auto simp add: steps1_def)
  have l2: "length steps2 = length s" by (simp add: steps2_def l1 Let_def)
  have e1: "ends_data (steps1 ! 0) = ends_data (s ! 0)"
    using assms ne by (cases "i = 0") (simp_all add: steps1_def)
  have e2: "ends_data (steps2 ! 0) = ends_data (s ! 0)"
    using assms e1 l1 ne by (simp add: steps2_def Let_def ends_data_def)
  have la1: "steps1 ! (length s - 1) = s ! (length s - 1)"
    using assms by (simp add: steps1_def)
  have la2: "steps2 ! (length s - 1) = s ! (length s - 1)"
    using assms la1 l1 by (simp add: steps2_def Let_def)
  have t1: "step_type (steps1 ! 1) = step_type (s ! 1)"
    using assms by (cases "i = 1") (simp_all add: steps1_def)
  have t2: "step_type (s ! 1) \<noteq> StayOnRoundabout \<Longrightarrow> step_type (steps2 ! 1) \<noteq> StayOnRoundabout"
    using assms t1 l1 by (simp add: steps2_def Let_def)
  show "ends_data (closeOffRoundabout tk on s i ! 0) = ends_data (s ! 0)"
    unfolding c using e2 propagate_exit_frame [of "i - 1" steps2] assms l2 by simp
  show "closeOffRoundabout tk on s i ! (length s - 1) = s ! (length s - 1)"
    unfolding c using la2 propagate_exit_frame [of "i - 1" steps2] assms l2 by simp
  show "step_type (s ! 1) \<noteq> StayOnRoundabout \<Longrightarrow>
     step_type (closeOffRoundabout tk on s i ! 1) \<noteq> StayOnRoundabout"
    unfolding c using t2 propagate_exit_frame [of "i - 1" steps2] assms l2 by simp
qed

lemma fix_final_loop_frame:
  "k < length s \<Longrightarrow> 2 \<le> length s \<Longrightarrow>
   step_type (s ! 1) \<noteq> StayOnRoundabout \<Longrightarrow>
   step_type (s ! (length s - 1)) \<noteq> StayOnRoundabout \<Longrightarrow>
   ends_data (fix_final_loop tk k s ! 0) = ends_data (s ! 0) \<and>
   ends_data (fix_final_loop tk k s ! (length s - 1)) = ends_data (s ! (length s - 1))"
proof (induction k arbitrary: s)
  case 0
  show ?case by simp
next
  case (Suc k)
  consider (enters) "entersRoundabout tk (instruction (maneuver (s ! Suc k)))"
    | (stay) "\<not> entersRoundabout tk (instruction (maneuver (s ! Suc k)))"
        "step_type (s ! Suc k) = StayOnRoundabout"
    | (other) "\<not> entersRoundabout tk (instruction (maneuver (s ! Suc k)))"
        "step_type (s ! Suc k) \<noteq> StayOnRoundabout"
    by blast
  then show ?case
  proof cases
    case enters
    define y where "y =
       (if step_type (set_exit 0 (s ! Suc k)) = EnterRotary \<or>
           step_type (set_exit 0 (s ! Suc k)) = EnterRotaryAtExit
        then (set_exit 0 (s ! Suc k))\<lparr>rotary_name := name (set_exit 0 (s ! Suc k)),
                   rotary_pronunciation := pronunciation (set_exit 0 (s ! Suc k))\<rparr>
        else if step_type (set_exit 0 (s ! Suc k)) = EnterRoundaboutIntersection \<or>
                step_type (set_exit 0 (s ! Suc k)) = EnterRoundaboutIntersectionAtExit
        then set_type EnterRoundabout (set_exit 0 (s ! Suc k))
        else set_exit 0 (s ! Suc k))"
    have f: "fix_final_loop tk (Suc k) s = s[Suc k := y]"
      using enters by (simp add: y_def Let_def)
    have e: "ends_data y = ends_data (s ! Suc k)"
      by (simp add: y_def) (simp add: ends_data_def set_exit_def)
    show ?thesis unfolding f using Suc.prems e by (simp add: nth_list_update)
  next
    case stay
    define s' where "s' = s[k := forwardInto (s ! k) (s ! Suc k), Suc k := getInvalidRouteStep]"
    have f: "fix_final_loop tk (Suc k) s = fix_final_loop tk k s'"
      using stay by (simp add: s'_def Let_def)
    have k0: "k \<noteq> 0"
    proof
      assume "k = 0"
      with stay(2) Suc.prems(3) show False by simp
    qed
    have k1: "Suc k \<noteq> 1" "Suc k \<noteq> length s - 1"
      using k0 stay(2) Suc.prems(4) by auto
    have l: "length s' = length s" by (simp add: s'_def)
    have a: "step_type (s' ! 1) \<noteq> StayOnRoundabout"
      using Suc.prems k1 by (cases "k = 1") (simp_all add: s'_def nth_list_update)
    have b: "s' ! (length s - 1) = s ! (length s - 1)" "s' ! 0 = s ! 0"
      using Suc.prems k1 k0 by (simp_all add: s'_def nth_list_update)
    from Suc.IH [of s'] Suc.prems a b l show ?thesis unfolding f by simp
  next
    case other
    then have f: "fix_final_loop tk (Suc k) s = fix_final_loop tk k s"
      by (simp add: Let_def)
    from Suc.IH [of s] Suc.prems show ?thesis unfolding f by simp
  qed
qed

lemma post_process_step_frame:
  assumes "3 \<le> length s" "i < length s"
    and "step_type (s ! 1) \<noteq> StayOnRoundabout"
    and "step_type (s ! (length s - 1)) \<noteq> StayOnRoundabout"
    and "\<not> leavesRoundabout tk (instruction (maneuver (s ! (length s - 1))))"
  shows "ends_data (fst (post_process_step tk i (s, on, he)) ! 0) = ends_data (s ! 0)"
    "ends_data (fst (post_process_step tk i (s, on, he)) ! (length s - 1)) =
       ends_data (s ! (length s - 1))"
    "step_type (fst (post_process_step tk i (s, on, he)) ! 1) \<noteq> StayOnRoundabout"
    "step_type (fst (post_process_step tk i (s, on, he)) ! (length s - 1)) \<noteq> StayOnRoundabout"
    "i + 1 < length s \<Longrightarrow>
     instruction (maneuver (fst (post_process_step tk i (s, on, he)) ! (length s - 1))) =
     instruction (maneuver (s ! (length s - 1)))"
proof -
  from assms have ne: "s \<noteq> []" by auto
  consider (enters) "entersRoundabout tk (instruction (maneuver (s ! i)))"
    | (stay) "\<not> entersRoundabout tk (instruction (maneuver (s ! i)))"
        "step_type (s ! i) = StayOnRoundabout"
    | (leaves) "\<not> entersRoundabout tk (instruction (maneuver (s ! i)))"
        "step_type (s ! i) \<noteq> StayOnRoundabout"
        "leavesRoundabout tk (instruction (maneuver (s ! i)))"
    | (other) "\<not> entersRoundabout tk (instruction (maneuver (s ! i)))"
        "step_type (s ! i) \<noteq> StayOnRoundabout"
        "\<not> leavesRoundabout tk (instruction (maneuver (s ! i)))"
    by blast
  then have "ends_data (fst (post_process_step tk i (s, on, he)) ! 0) = ends_data (s ! 0) \<and>
    ends_data (fst (post_process_step tk i (s, on, he)) ! (length s - 1)) =
       ends_data (s ! (length s - 1)) \<and>
    step_type (fst (post_process_step tk i (s, on, he)) ! 1) \<noteq> StayOnRoundabout \<and>
    step_type (fst (post_process_step tk i (s, on, he)) ! (length s - 1)) \<noteq> StayOnRoundabout \<and>
    (i + 1 < length s \<longrightarrow>
     instruction (maneuver (fst (post_process_step tk i (s, on, he)) ! (length s - 1))) =
     instruction (maneuver (s ! (length s - 1))))"
  proof cases
    case enters
    define x where "x = snd (setUpRoundabout tk (s ! i))"
    define s' where "s' = (if fst (setUpRoundabout tk (s ! i)) \<and> i + 1 < length s
        then s[i := x, i + 1 := set_exit (exit (maneuver x)) (s ! (i + 1))] else s[i := x])"
    have p: "fst (post_process_step tk i (s, on, he)) = s'"
      using enters assms(2)
      by (simp add: post_process_step_def Let_def s'_def x_def)
    have ex: "ends_data x = ends_data (s ! i)" by (simp add: x_def)
    have tx: "step_type (s ! i) \<noteq> StayOnRoundabout \<Longrightarrow> step_type x \<noteq> StayOnRoundabout"
      unfolding x_def by (rule setUpRoundabout_type)
    have n: "\<And>j. j < length s \<Longrightarrow> ends_data (s' ! j) = ends_data (s ! j)"
      using ex by (simp add: s'_def nth_list_update)
    have t: "\<And>j. j < length s \<Longrightarrow> step_type (s ! j) \<noteq> StayOnRoundabout \<Longrightarrow>
        step_type (s' ! j) \<noteq> StayOnRoundabout"
      using tx by (simp add: s'_def nth_list_update)
    have ins: "i + 1 < length s \<Longrightarrow>
        instruction (maneuver (s' ! (length s - 1))) = instruction (maneuver (s ! (length s - 1)))"
      by (simp add: s'_def nth_list_update set_exit_def)
    show ?thesis unfolding p using n [of 0] n [of "length s - 1"] t [of 1] t [of "length s - 1"]
        ins assms ne by simp
  next
    case stay
    define x where "x = set_exit (exit (maneuver (s ! i)) + 1) (s ! i)"
    define s' where "s' = (if i + 1 < length s
        then s[i := x, i + 1 := set_exit (exit (maneuver x)) (s ! (i + 1))] else s[i := x])"
    have p: "fst (post_process_step tk i (s, on, he)) = s'"
      using stay assms(2)
      by (simp add: post_process_step_def Let_def s'_def x_def step_type_def)
    have n: "\<And>j. j < length s \<Longrightarrow> ends_data (s' ! j) = ends_data (s ! j)"
      by (simp add: s'_def x_def nth_list_update)
    have t: "\<And>j. j < length s \<Longrightarrow> step_type (s' ! j) = step_type (s ! j)"
      by (simp add: s'_def x_def nth_list_update)
    have ins: "i + 1 < length s \<Longrightarrow>
        instruction (maneuver (s' ! (length s - 1))) = instruction (maneuver (s ! (length s - 1)))"
      by (simp add: s'_def nth_list_update set_exit_def)
    show ?thesis unfolding p using n [of 0] n [of "length s - 1"] t [of 1] t [of "length s - 1"]
        ins assms ne by simp
  next
    case leaves
    have p: "fst (post_process_step tk i (s, on, he)) = closeOffRoundabout tk he s i"
      using leaves by (simp add: post_process_step_def Let_def step_type_def)
    have il: "i + 1 < length s"
    proof (rule ccontr)
      assume "\<not> i + 1 < length s"
      with assms(2) have "length s - 1 = i" by simp
      with leaves(3) assms(5) show False by simp
    qed
    from closeOffRoundabout_frame [OF assms(1) il, of tk he] assms
    show ?thesis unfolding p by simp
  next
    case other
    define s' where "s' = (if on \<and> i + 1 < length s
        then s[i + 1 := set_exit (exit (maneuver (s ! i))) (s ! (i + 1))] else s)"
    have p: "fst (post_process_step tk i (s, on, he)) = s'"
      using other by (simp add: post_process_step_def Let_def s'_def step_type_def)
    have n: "\<And>j. j < length s \<Longrightarrow> ends_data (s' ! j) = ends_data (s ! j)"
      by (simp add: s'_def nth_list_update)
    have t: "\<And>j. j < length s \<Longrightarrow> step_type (s' ! j) = step_type (s ! j)"
      by (simp add: s'_def nth_list_update)
    have ins: "instruction (maneuver (s' ! (length s - 1))) =
        instruction (maneuver (s ! (length s - 1)))"
      by (simp add: s'_def nth_list_update set_exit_def)
    show ?thesis unfolding p using n [of 0] n [of "length s - 1"] t [of 1] t [of "length s - 1"]
        ins assms ne by simp
  qed
  then show "ends_data (fst (post_process_step tk i (s, on, he)) ! 0) = ends_data (s ! 0)"
    "ends_data (fst (post_process_step tk i (s, on, he)) ! (length s - 1)) =
       ends_data (s ! (length s - 1))"
    "step_type (fst (post_process_step tk i (s, on, he)) ! 1) \<noteq> StayOnRoundabout"
    "step_type (fst (post_process_step tk i (s, on, he)) ! (length s - 1)) \<noteq> StayOnRoundabout"
    "i + 1 < length s \<Longrightarrow>
     instruction (maneuver (fst (post_process_step tk i (s, on, he)) ! (length s - 1))) =
     instruction (maneuver (s ! (length s - 1)))"
    by simp_all
qed

lemma post_process_loop:
  assumes n: "3 \<le> length steps" and r: "roundabout_free_ends tk steps"
  shows "m \<le> length steps \<Longrightarrow>
     (case fold (post_process_step tk) [0..<m] (steps, False, False) of (s, flags) \<Rightarrow>
        length s = length steps \<and>
        ends_data (s ! 0) = ends_data (steps ! 0) \<and>
        ends_data (s ! (length steps - 1)) = ends_data (steps ! (length steps - 1)) \<and>
        step_type (s ! 1) \<noteq> StayOnRoundabout \<and>
        step_type (s ! (length steps - 1)) \<noteq> StayOnRoundabout \<and>
        (m < length steps \<longrightarrow>
           instruction (maneuver (s ! (length steps - 1))) =
           instruction (maneuver (steps ! (length steps - 1)))))"
proof (induction m)
  case 0
  from n have "steps \<noteq> []" by auto
  with r show ?case by (simp add: roundabout_free_ends_def last_conv_nth)
next
  case (Suc m)
  obtain s on he where sl:
    "fold (post_process_step tk) [0..<m] (steps, False, False) = (s, on, he)"
    by (cases "fold (post_process_step tk) [0..<m] (steps, False, False)")
  then have f: "fold (post_process_step tk) [0..<Suc m] (steps, False, False) =
      post_process_step tk m (s, on, he)" by simp
  from Suc have m: "m < length steps" by simp
  from n have "steps \<noteq> []" by auto
  with r have nl: "\<not> leavesRoundabout tk (instruction (maneuver (steps ! (length steps - 1))))"
    by (simp add: roundabout_free_ends_def last_conv_nth)
  from Suc.IH m sl have len: "length s = length steps"
    and e0: "ends_data (s ! 0) = ends_data (steps ! 0)"
    and el: "ends_data (s ! (length steps - 1)) = ends_data (steps ! (length steps - 1))"
    and t1: "step_type (s ! 1) \<noteq> StayOnRoundabout"
    and tl: "step_type (s ! (length steps - 1)) \<noteq> StayOnRoundabout"
    and ins: "instruction (maneuver (s ! (length steps - 1))) =
           instruction (maneuver (steps ! (length steps - 1)))"
    by simp_all
  have a: "3 \<le> length s" "m < length s" "step_type (s ! 1) \<noteq> StayOnRoundabout"
    "step_type (s ! (length s - 1)) \<noteq> StayOnRoundabout"
    "\<not> leavesRoundabout tk (instruction (maneuver (s ! (length s - 1))))"
    using n m t1 tl ins nl by (simp_all add: len)
  obtain s' flags where p: "post_process_step tk m (s, on, he) = (s', flags)"
    by (cases "post_process_step tk m (s, on, he)")
  from length_post_process_step [of tk m "(s, on, he)"] p
  have len': "length s' = length steps" by (simp add: len)
  from post_process_step_frame [OF a, of on he] p
  show ?case unfolding f p using len' e0 el ins by (simp add: len)
qed

lemma postProcess_keeps_invariant:
  assumes i: "depart_arrive_invariant steps" and r: "roundabout_free_ends tk steps"
  shows "depart_arrive_invariant (postProcess tk steps)"
proof (cases "length steps = 2")
  case True
  with i show ?thesis by (simp add: postProcess_def)
next
  case False
  with i have n: "3 \<le> length steps" by (simp add: depart_arrive_invariant_def)
  obtain s on he where sl:
    "fold (post_process_step tk) [0..<length steps] (steps, False, False) = (s, on, he)"
    by (cases "fold (post_process_step tk) [0..<length steps] (steps, False, False)")
  from post_process_loop [OF n r, of "length steps"] sl
  have len: "length s = length steps"
    and e0: "ends_data (s ! 0) = ends_data (steps ! 0)"
    and el: "ends_data (s ! (length s - 1)) = ends_data (steps ! (length steps - 1))"
    and t1: "step_type (s ! 1) \<noteq> StayOnRoundabout"
    and tl: "step_type (s ! (length s - 1)) \<noteq> StayOnRoundabout"
    by simp_all
  define s' where "s' = (if he \<or> on then fixFinalRoundabout tk s else s)"
  have p: "postProcess tk steps = removeNoTurnInstructions s'"
    using False by (simp add: postProcess_def sl s'_def)
  from n len have k: "length s - 1 < length s" "2 \<le> length s" by simp_all
  from fix_final_loop_frame [OF k t1 tl, of tk]
  have e: "ends_data (s' ! 0) = ends_data (steps ! 0)"
    "ends_data (s' ! (length steps - 1)) = ends_data (steps ! (length steps - 1))"
    using e0 el by (simp_all add: s'_def fixFinalRoundabout_def len)
  have "length s' = length steps"
    by (simp add: s'_def fixFinalRoundabout_def len)
  then have "depart_arrive_invariant s'"
    using i depart_ok_ends_data [OF e(1)] arrive_ok_ends_data [OF e(2)]
    by (simp add: depart_arrive_invariant_iff)
  then show ?thesis unfolding p by (rule sweep_keeps_invariant)
qed




text \<open>
  Claim C10.  \<open>postProcess\<close> returns a list of exactly two steps unchanged, and
  \<open>collapseTurns\<close> returns a list of at most two steps unchanged.
\<close>

theorem short_legs_unchanged:
  "(length steps = 2 \<longrightarrow> postProcess tk steps = steps) \<and>
   (length steps \<le> 2 \<longrightarrow> collapseTurns tk steps = steps)"
  by (simp add: postProcess_def collapseTurns_def)

theorem short_legs_unchanged_witness:
  "length two_step_leg = 2 \<and>
   postProcess reference_toolkit two_step_leg = two_step_leg \<and>
   collapseTurns reference_toolkit two_step_leg = two_step_leg"
proof -
  have l: "length two_step_leg = 2" by (simp add: two_step_leg_def)
  with short_legs_unchanged [of two_step_leg reference_toolkit] show ?thesis by simp
qed

text \<open>
  Claim C3 says that collapsing is idempotent.  On \<open>lane_leg\<close> the first run folds the
  use-lane step into the step before it; the second run finds the elongated step next
  to the left turn, at a crossing without a choice, and folds it into the right turn.
\<close>

lemma collapse_lane_leg_once:
  "map name (collapseTurns reference_toolkit lane_leg) =
     [''Alpha'', ''Bravo'', ''Charlie'', ''Echo'', ''Echo'']"
  by code_simp

lemma collapse_lane_leg_twice:
  "map name (collapseTurns reference_toolkit (collapseTurns reference_toolkit lane_leg)) =
     [''Alpha'', ''Bravo'', ''Echo'', ''Echo'']"
  by code_simp

theorem collapseTurns_idempotent_counterexample:
  "collapseTurns reference_toolkit (collapseTurns reference_toolkit lane_leg) \<noteq>
   collapseTurns reference_toolkit lane_leg"
proof
  assume "collapseTurns reference_toolkit (collapseTurns reference_toolkit lane_leg) =
    collapseTurns reference_toolkit lane_leg"
  then have "map name (collapseTurns reference_toolkit (collapseTurns reference_toolkit lane_leg)) =
    map name (collapseTurns reference_toolkit lane_leg)" by simp
  then show False
    unfolding collapse_lane_leg_once collapse_lane_leg_twice by simp
qed

text \<open>
  What holds instead: collapsing is idempotent on lists of at most two steps; on a
  longer list its result holds no invalidated step, so that the sweep, run again,
  removes nothing.
\<close>

theorem collapseTurns_short_or_swept:
  "(length steps \<le> 2 \<longrightarrow> collapseTurns tk (collapseTurns tk steps) = collapseTurns tk steps) \<and>
   (2 < length steps \<longrightarrow>
      list_all (\<lambda>step. \<not> (instruction (maneuver step) = NO_TURN \<and>
                          waypoint_type (maneuver step) = WaypointNone))
        (collapseTurns tk steps) \<and>
      removeNoTurnInstructions (collapseTurns tk steps) = collapseTurns tk steps)"
  by (simp add: collapseTurns_def removeNoTurnInstructions_def not_is_valid_def list_all_iff)

theorem collapseTurns_short_or_swept_witness:
  "length two_step_leg \<le> 2 \<and>
   collapseTurns reference_toolkit (collapseTurns reference_toolkit two_step_leg) =
     collapseTurns reference_toolkit two_step_leg \<and>
   2 < length lane_leg \<and>
   removeNoTurnInstructions (collapseTurns reference_toolkit lane_leg) =
     collapseTurns reference_toolkit lane_leg"
proof -
  have l: "length two_step_leg \<le> 2" "2 < length lane_leg"
    by (simp_all add: two_step_leg_def lane_leg_def)
  from collapseTurns_short_or_swept [of two_step_leg reference_toolkit]
    collapseTurns_short_or_swept [of lane_leg reference_toolkit] l
  show ?thesis by simp
qed

section \<open>Claims about the leg geometry\<close>

lemma fold_resync_step:
  "segment_offsets (fold resync_step steps g) =
     segment_offsets g @ map (\<lambda>step. size_t_minus (geometry_end step) 1) steps \<and>
   segment_distances (fold resync_step steps g) =
     segment_distances g @ map distance steps"
  by (induction steps arbitrary: g) (simp_all add: resync_step_def)

lemma resyncGeometry_lists:
  assumes "steps \<noteq> []"
  shows "segment_offsets (resyncGeometry leg steps) =
           0 # map (\<lambda>step. size_t_minus (geometry_end step) 1) (butlast steps)"
    and "segment_distances (resyncGeometry leg steps) = map distance (butlast steps)"
  using assms
  by (simp_all add: resyncGeometry_def Let_def fold_resync_step butlast_append map_butlast)

lemma size_t_minus_one:
  assumes "0 < n" "n < 2 ^ 64"
  shows "size_t_minus n 1 = n - 1"
proof -
  from assms have "n + 2 ^ 64 - 1 = (n - 1) + 1 * 2 ^ 64" by simp
  then have "size_t_minus n 1 = (n - 1 + 1 * 2 ^ 64) mod 2 ^ 64"
    by (simp only: size_t_minus_def)
  also have "\<dots> = (n - 1) mod 2 ^ 64" by (simp only: mod_mult_self1)
  also have "\<dots> = n - 1" using assms by simp
  finally show ?thesis .
qed

text \<open>
  Claim C5 says that after the resync the number of segment offsets minus one is the
  number of steps, and that consecutive offsets differ by
  \<open>geometry_end - geometry_begin\<close> of the step.  The code drops the interval of the
  arrive step again: there are as many offsets as steps, offset \<open>i + 1\<close> is
  \<open>steps[i].geometry_end - 1\<close> for every step but the last, and there is one distance
  for every step but the last.  When the steps chain, offset \<open>i\<close> is
  \<open>steps[i].geometry_begin\<close>, and consecutive offsets differ by
  \<open>geometry_end - geometry_begin - 1\<close>.
\<close>

theorem resyncGeometry_offsets:
  assumes "steps \<noteq> []"
    and "\<forall>step\<in>set steps. 0 < geometry_end step \<and> geometry_end step < 2 ^ 64"
  shows "length (segment_offsets (resyncGeometry leg steps)) = length steps \<and>
         length (segment_distances (resyncGeometry leg steps)) = length steps - 1 \<and>
         segment_offsets (resyncGeometry leg steps) ! 0 = 0 \<and>
         (\<forall>i. i + 1 < length steps \<longrightarrow>
              segment_offsets (resyncGeometry leg steps) ! (i + 1) =
                geometry_end (steps ! i) - 1 \<and>
              segment_distances (resyncGeometry leg steps) ! i = distance (steps ! i)) \<and>
         (chained steps \<longrightarrow>
            (\<forall>i. i < length steps \<longrightarrow>
                 segment_offsets (resyncGeometry leg steps) ! i = geometry_begin (steps ! i)) \<and>
            (\<forall>i. i + 1 < length steps \<longrightarrow>
                 int (segment_offsets (resyncGeometry leg steps) ! (i + 1)) -
                 int (segment_offsets (resyncGeometry leg steps) ! i) =
                   int (geometry_end (steps ! i)) - int (geometry_begin (steps ! i)) - 1))"
proof -
  let ?off = "segment_offsets (resyncGeometry leg steps)"
  let ?dist = "segment_distances (resyncGeometry leg steps)"
  note l = resyncGeometry_lists [OF assms(1), of leg]
  have len: "length ?off = length steps" "length ?dist = length steps - 1"
    using assms(1) by (simp_all add: l)
  have zero: "?off ! 0 = 0" by (simp add: l)
  have nxt: "?off ! (i + 1) = geometry_end (steps ! i) - 1 \<and> ?dist ! i = distance (steps ! i)"
    if i: "i + 1 < length steps" for i
  proof -
    from i have b: "i < length (butlast steps)" by simp
    then have n: "butlast steps ! i = steps ! i" by (simp add: nth_butlast)
    from i have "steps ! i \<in> set steps" by simp
    with assms(2) have "0 < geometry_end (steps ! i)" "geometry_end (steps ! i) < 2 ^ 64"
      by blast+
    then have "size_t_minus (geometry_end (steps ! i)) 1 = geometry_end (steps ! i) - 1"
      by (rule size_t_minus_one)
    with b n show ?thesis by (simp add: l)
  qed
  have beg: "?off ! i = geometry_begin (steps ! i)" if c: "chained steps" and i: "i < length steps"
    for i
  proof (cases i)
    case 0
    with zero c show ?thesis by (simp add: chained_def)
  next
    case (Suc k)
    with i have k: "k + 1 < length steps" by simp
    from c k have "geometry_begin (steps ! (k + 1)) + 1 = geometry_end (steps ! k)"
      by (simp add: chained_def)
    with nxt [OF k] Suc show ?thesis by simp
  qed
  have diff: "int (?off ! (i + 1)) - int (?off ! i) =
      int (geometry_end (steps ! i)) - int (geometry_begin (steps ! i)) - 1"
    if c: "chained steps" and i: "i + 1 < length steps" for i
  proof -
    from i have "steps ! i \<in> set steps" by simp
    with assms(2) have "0 < geometry_end (steps ! i)" by blast
    moreover from i have "i < length steps" by simp
    ultimately show ?thesis using nxt [OF i] beg [OF c] by simp
  qed
  from len zero nxt beg diff show ?thesis by blast
qed

theorem resyncGeometry_offsets_witness:
  "two_step_leg \<noteq> [] \<and> chained two_step_leg \<and>
   list_all (\<lambda>step. 0 < geometry_end step \<and> geometry_end step < 2 ^ 64) two_step_leg \<and>
   segment_offsets (resyncGeometry some_geometry two_step_leg) = [0, 1] \<and>
   segment_distances (resyncGeometry some_geometry two_step_leg) = [100] \<and>
   length (segment_offsets (resyncGeometry some_geometry two_step_leg)) = length two_step_leg \<and>
   int (segment_offsets (resyncGeometry some_geometry two_step_leg) ! 1) -
   int (segment_offsets (resyncGeometry some_geometry two_step_leg) ! 0) =
     int (geometry_end (two_step_leg ! 0)) - int (geometry_begin (two_step_leg ! 0)) - 1"
proof -
  have n: "two_step_leg \<noteq> []" by (simp add: two_step_leg_def)
  have g: "list_all (\<lambda>step. 0 < geometry_end step \<and> geometry_end step < 2 ^ 64) two_step_leg"
    by (simp add: two_step_leg_def depart_step_def arrive_step_def turn_step_def)
  then have b: "\<forall>step\<in>set two_step_leg. 0 < geometry_end step \<and> geometry_end step < 2 ^ 64"
    by (simp add: list_all_iff)
  have c: "chained two_step_leg"
    by (simp add: chained_def two_step_leg_def depart_step_def arrive_step_def turn_step_def)
  have v: "segment_offsets (resyncGeometry some_geometry two_step_leg) = [0, 1]"
    "segment_distances (resyncGeometry some_geometry two_step_leg) = [100]"
    by code_simp+
  have l: "length two_step_leg = 2" by (simp add: two_step_leg_def)
  from resyncGeometry_offsets [OF n b, of some_geometry] c
  have d: "\<forall>i. i + 1 < length two_step_leg \<longrightarrow>
        int (segment_offsets (resyncGeometry some_geometry two_step_leg) ! (i + 1)) -
        int (segment_offsets (resyncGeometry some_geometry two_step_leg) ! i) =
        int (geometry_end (two_step_leg ! i)) - int (geometry_begin (two_step_leg ! i)) - 1"
    by blast
  have "0 + 1 < length two_step_leg" using l by simp
  with d have e: "int (segment_offsets (resyncGeometry some_geometry two_step_leg) ! (0 + 1)) -
        int (segment_offsets (resyncGeometry some_geometry two_step_leg) ! 0) =
        int (geometry_end (two_step_leg ! 0)) - int (geometry_begin (two_step_leg ! 0)) - 1"
    by blast
  have "(0::nat) + 1 = 1" by simp
  with e have "int (segment_offsets (resyncGeometry some_geometry two_step_leg) ! 1) -
        int (segment_offsets (resyncGeometry some_geometry two_step_leg) ! 0) =
        int (geometry_end (two_step_leg ! 0)) - int (geometry_begin (two_step_leg ! 0)) - 1"
    by (simp only:)
  with n g c v l show ?thesis by (simp only: simp_thms list.size)
qed

theorem resyncGeometry_offsets_counterexample:
  "length (segment_offsets (resyncGeometry some_geometry two_step_leg)) - 1 \<noteq>
     length two_step_leg \<and>
   segment_offsets (resyncGeometry some_geometry two_step_leg) ! 1 -
   segment_offsets (resyncGeometry some_geometry two_step_leg) ! 0 \<noteq>
     geometry_end (two_step_leg ! 0) - geometry_begin (two_step_leg ! 0)"
proof -
  have n: "two_step_leg \<noteq> []" by (simp add: two_step_leg_def)
  have v: "segment_offsets (resyncGeometry some_geometry two_step_leg) = [0, 1]"
    by code_simp
  show ?thesis
    unfolding v by (simp add: two_step_leg_def depart_step_def arrive_step_def turn_step_def)
qed

section \<open>Claims about the keys of settled nodes\<close>

text \<open>
  Claim C1 says that every node a sweep settles has a key equal to its shortest-path
  weight from the seeds in the contracted-upward view, and that stalling never lets a
  node be settled or recorded with more than a reference Dijkstra over the same edges
  would give it.  In the backward sweep from node 0 of \<open>stall_graph\<close>, node 1 is
  settled with key 10 and stalls (node 3, with key 1, reaches it for 2 more), so its
  edge to node 2 is never relaxed: node 2 is settled and recorded with key 50, while the
  path 0, 1, 2 of the same edge set weighs 11.
\<close>

lemma stall_graph_sweep:
  "map_option (\<lambda>(h, B). (heap h, WasInserted h 2, GetKey h 2, B 2))
     (explore_backward stall_graph 0 (seed_target (line_phantom 0) empty_heap, \<lambda>_. None)) =
   Some ([], True, 50, Some [\<lparr>target_id = 0, bucket_distance = 50\<rparr>])"
  by code_simp

lemma stall_graph_path: "upward_path False stall_graph (target_seeds (line_phantom 0)) 2 11"
proof -
  have s: "upward_path False stall_graph (target_seeds (line_phantom 0)) 0 0"
    by (rule upward_path.seed)
       (simp add: target_seeds_def line_phantom_def GetForwardWeightPlusOffset_def)
  have e0: "0 \<in> set (GetAdjacentEdgeRange stall_graph 0)"
    "direction_flag False (GetEdgeData stall_graph 0)"
    "GetTarget stall_graph 0 = 1" "edge_distance (GetEdgeData stall_graph 0) = 10"
    by (simp_all add: GetAdjacentEdgeRange_def BeginEdges_def EndEdges_def stall_graph_def
          direction_flag_def GetEdgeData_def GetTarget_def hierarchy_edge_def)
  have e3: "3 \<in> set (GetAdjacentEdgeRange stall_graph 1)"
    "direction_flag False (GetEdgeData stall_graph 3)"
    "GetTarget stall_graph 3 = 2" "edge_distance (GetEdgeData stall_graph 3) = 1"
    by (simp_all add: GetAdjacentEdgeRange_def BeginEdges_def EndEdges_def stall_graph_def
          direction_flag_def GetEdgeData_def GetTarget_def hierarchy_edge_def)
  from upward_path.edge [OF s e0(1,2)] e0(3,4)
  have "upward_path False stall_graph (target_seeds (line_phantom 0)) 1 10" by simp
  from upward_path.edge [OF this e3(1,2)] e3(3,4)
  show ?thesis by simp
qed

theorem settled_key_counterexample:
  "valid_graph stall_graph \<and>
   list_all (\<lambda>e. 0 < edge_distance (data e)) (edge_array stall_graph) \<and>
   map_option (\<lambda>(h, B). (heap h, WasInserted h 2, GetKey h 2, B 2))
     (explore_backward stall_graph 0 (seed_target (line_phantom 0) empty_heap, \<lambda>_. None)) =
   Some ([], True, 50, Some [\<lparr>target_id = 0, bucket_distance = 50\<rparr>]) \<and>
   upward_path False stall_graph (target_seeds (line_phantom 0)) 2 11"
proof -
  have "valid_graph stall_graph"
    by (simp add: valid_graph_def stall_graph_def hierarchy_edge_def GetNumberOfNodes_def
          SPECIAL_EDGEID_def)
  moreover have "list_all (\<lambda>e. 0 < edge_distance (data e)) (edge_array stall_graph)"
    by (simp add: stall_graph_def hierarchy_edge_def)
  ultimately show ?thesis using stall_graph_sweep stall_graph_path by simp
qed

text \<open>
  What holds instead: on a valid facade a sweep ends with an empty queue, and the key
  of every node it inserted, and every bucket it recorded, is the weight of a path
  from a seed along edges of the sweep's direction.  A key is therefore never below the
  shortest-path weight; behind a stalled node it can be above it.
\<close>

theorem settled_keys_are_path_weights:
  assumes g: "valid_graph g" and p: "valid_phantom g p"
  shows "\<exists>h B h' t'.
           explore_backward g c (seed_target p h0, B0) = Some (h, B) \<and>
           heap h = [] \<and>
           (\<forall>n. WasInserted h n \<longrightarrow> upward_path False g (target_seeds p) n (GetKey h n)) \<and>
           new_buckets_are_paths g (target_seeds p) c B0 B \<and>
           explore_forward g r M B' (seed_source p h0, t) = Some (h', t') \<and>
           heap h' = [] \<and>
           (\<forall>n. WasInserted h' n \<longrightarrow> upward_path True g (source_seeds p) n (GetKey h' n))"
proof -
  from explore_backward_terminates [OF g, of "(seed_target p h0, B0)" c]
    heap_inv_seed_target [OF p]
  obtain h B where b: "explore_backward g c (seed_target p h0, B0) = Some (h, B)"
    by fastforce
  from explore_forward_terminates [OF g, of "(seed_source p h0, t)" r M B']
    heap_inv_seed_source [OF p]
  obtain h' t' where f: "explore_forward g r M B' (seed_source p h0, t) = Some (h', t')"
    by fastforce
  from explore_backward_paths [OF b, of "target_seeds p" B0]
    seed_target_paths [of g p h0] new_buckets_refl [of g "target_seeds p" c B0]
  have "keys_are_paths False g (target_seeds p) h" "new_buckets_are_paths g (target_seeds p) c B0 B"
    "heap h = []" by simp_all
  moreover from explore_forward_paths [OF f, of "source_seeds p"] seed_source_paths [of g p h0]
  have "keys_are_paths True g (source_seeds p) h'" "heap h' = []" by simp_all
  ultimately show ?thesis using b f unfolding keys_are_paths_def by blast
qed

theorem settled_keys_are_path_weights_witness:
  "valid_graph stall_graph \<and> valid_phantom stall_graph (line_phantom 0) \<and>
   (\<exists>h B. explore_backward stall_graph 0 (seed_target (line_phantom 0) empty_heap, \<lambda>_. None) =
            Some (h, B) \<and>
          GetKey h 2 = 50 \<and>
          upward_path False stall_graph (target_seeds (line_phantom 0)) 2 (GetKey h 2))"
proof -
  have g: "valid_graph stall_graph"
    by (simp add: valid_graph_def stall_graph_def hierarchy_edge_def GetNumberOfNodes_def
          SPECIAL_EDGEID_def)
  have p: "valid_phantom stall_graph (line_phantom 0)"
    by (simp add: valid_phantom_def line_phantom_def stall_graph_def GetNumberOfNodes_def)
  from settled_keys_are_path_weights [OF g p, of 0 empty_heap "\<lambda>_. None" 0 0 "\<lambda>_. None" "[]"]
  obtain h B where e: "explore_backward stall_graph 0
        (seed_target (line_phantom 0) empty_heap, \<lambda>_. None) = Some (h, B)"
    and k: "\<forall>n. WasInserted h n \<longrightarrow>
        upward_path False stall_graph (target_seeds (line_phantom 0)) n (GetKey h n)"
    by blast
  from stall_graph_sweep e have "WasInserted h 2" "GetKey h 2 = 50" by simp_all
  with k e g p show ?thesis by blast
qed

end
